theory Spec2Isabelle
  imports Complex_Main "HOL-Library.Log_Nat" "HOL-Library.Multiset"
begin

section \<open>Blocks and the key of the block-model lookup (renderer.ts, hashBlockForMap)\<close>

text \<open>
  A block of the schematic library is an object \<^verbatim>\<open>{ type: string, properties: Record<string, string> }\<close>.
  The properties object is represented by its own keys and values in the order in which
  JavaScript enumerates them, which is the order \<^verbatim>\<open>JSON.stringify\<close> follows; for keys that are
  not array indices this is the order of insertion. The keys of an object are distinct.
  Strings are byte strings (UTF-8).
\<close>

record Block =
  type :: string
  properties :: "(string \<times> string) list"

text \<open>
  \<^verbatim>\<open>JSON.stringify\<close> on an object whose values are strings (ECMAScript, QuoteJSONString and
  SerializeJSONObject without gap): the quotation mark, the backslash and the control
  characters are escaped, every other character is copied.
\<close>

definition hexDigit :: "nat \<Rightarrow> char" where
  "hexDigit n = ''0123456789abcdef'' ! (n mod 16)"

definition QuoteJSONChar :: "char \<Rightarrow> string" where
  "QuoteJSONChar c =
     (let n = (of_char c :: nat) in
      if n = 0x08 then [CHR 0x5C, CHR ''b'']
      else if n = 0x09 then [CHR 0x5C, CHR ''t'']
      else if n = 0x0A then [CHR 0x5C, CHR ''n'']
      else if n = 0x0C then [CHR 0x5C, CHR ''f'']
      else if n = 0x0D then [CHR 0x5C, CHR ''r'']
      else if n = 0x22 then [CHR 0x5C, CHR 0x22]
      else if n = 0x5C then [CHR 0x5C, CHR 0x5C]
      else if n < 0x20 then
        [CHR 0x5C, CHR ''u'', CHR ''0'', CHR ''0'', hexDigit (n div 16), hexDigit n]
      else [c])"

definition QuoteJSONString :: "string \<Rightarrow> string" where
  "QuoteJSONString s = [CHR 0x22] @ concat (map QuoteJSONChar s) @ [CHR 0x22]"

fun joinComma :: "string list \<Rightarrow> string" where
  "joinComma [] = []"
| "joinComma [m] = m"
| "joinComma (m # ms) = m @ '','' @ joinComma ms"

definition JSON_stringify :: "(string \<times> string) list \<Rightarrow> string" where
  "JSON_stringify ps =
     ''{'' @ joinComma (map (\<lambda>(k, v). QuoteJSONString k @ '':'' @ QuoteJSONString v) ps) @ ''}''"

text \<open>\<^verbatim>\<open>return `${block.type}:${JSON.stringify(block.properties)}`;\<close>\<close>

definition hashBlockForMap :: "Block \<Rightarrow> string" where
  "hashBlockForMap block = type block @ '':'' @ JSON_stringify (properties block)"

text \<open>One member of the serialized object: the quoted name, a colon and the quoted value.\<close>

definition member :: "string \<times> string \<Rightarrow> string" where
  "member kv = QuoteJSONString (fst kv) @ '':'' @ QuoteJSONString (snd kv)"

text \<open>Two stair blocks with the same properties, inserted in different orders.\<close>

definition stairsFacingFirst :: Block where
  "stairsFacingFirst =
     \<lparr>type = ''minecraft:oak_stairs'', properties = [(''facing'', ''north''), (''half'', ''top'')]\<rparr>"

definition stairsHalfFirst :: Block where
  "stairsHalfFirst =
     \<lparr>type = ''minecraft:oak_stairs'', properties = [(''half'', ''top''), (''facing'', ''north'')]\<rparr>"

section \<open>The resource loader (resourceLoader.ts)\<close>

text \<open>
  A loaded archive (a JSZip object) is the mapping from entry paths to entry contents;
  \<^verbatim>\<open>zipFile.file(path)?.async(...)\<close> is the content of the entry, or undefined when the archive
  has no such entry. \<^verbatim>\<open>loadZip\<close> gives one archive for a single URL and an array for an array.
\<close>

type_synonym JSZip = "string \<rightharpoonup> string"

datatype Zips = SingleZip JSZip | ZipArray "JSZip list"

text \<open>An object URL made by \<^verbatim>\<open>URL.createObjectURL\<close>: its serial number and the blob behind it.\<close>

datatype ObjectURL = ObjectURL nat string

text \<open>
  The closure of \<^verbatim>\<open>getResourceLoader\<close>. A cache holds undefined for a path that was looked up
  and not found: \<^verbatim>\<open>has\<close> is true and \<^verbatim>\<open>get\<close> is undefined, here \<open>Some None\<close>.
\<close>

record ResourceLoader =
  zipLoaded :: Zips
  stringCache :: "string \<rightharpoonup> string option"
  blobCache :: "string \<rightharpoonup> ObjectURL option"
  objectURLs :: nat

definition assetPath :: "string \<Rightarrow> string" where
  "assetPath nm = ''assets/minecraft/'' @ nm"

text \<open>\<^verbatim>\<open>if (data)\<close>: a Blob is truthy, undefined is not; a string is truthy unless it is empty.\<close>

definition truthyBlob :: "string option \<Rightarrow> bool" where
  "truthyBlob data = (case data of None \<Rightarrow> False | Some b \<Rightarrow> True)"

definition truthyString :: "string option \<Rightarrow> bool" where
  "truthyString data = (case data of None \<Rightarrow> False | Some s \<Rightarrow> s \<noteq> [])"

text \<open>
  \<^verbatim>\<open>for (const zipFile of zip) { data = await zipFile.file(...)?.async(...); if (data) break; }\<close>
  The last argument is the variable \<^verbatim>\<open>data\<close>, undefined before the loop.
\<close>

fun scanBlob :: "JSZip list \<Rightarrow> string \<Rightarrow> string option \<Rightarrow> string option" where
  "scanBlob [] nm data = data"
| "scanBlob (zipFile # rest) nm data =
     (let data' = zipFile (assetPath nm)
      in if truthyBlob data' then data' else scanBlob rest nm data')"

fun scanString :: "JSZip list \<Rightarrow> string \<Rightarrow> string option \<Rightarrow> string option" where
  "scanString [] nm data = data"
| "scanString (zipFile # rest) nm data =
     (let data' = zipFile (assetPath nm)
      in if truthyString data' then data' else scanString rest nm data')"

definition getResourceBlob :: "string \<Rightarrow> ResourceLoader \<Rightarrow> ObjectURL option \<times> ResourceLoader" where
  "getResourceBlob nm rl =
     (case blobCache rl nm of
        Some cached \<Rightarrow> (cached, rl)
      | None \<Rightarrow>
          (let data = (case zipLoaded rl of
                         ZipArray zs \<Rightarrow> scanBlob zs nm None
                       | SingleZip z \<Rightarrow> z (assetPath nm))
           in case data of
                None \<Rightarrow> (None, rl\<lparr>blobCache := (blobCache rl)(nm \<mapsto> None)\<rparr>)
              | Some blob \<Rightarrow>
                  (let url = ObjectURL (objectURLs rl) blob
                   in (Some url, rl\<lparr>blobCache := (blobCache rl)(nm \<mapsto> Some url),
                                     objectURLs := objectURLs rl + 1\<rparr>))))"

definition getResourceString :: "string \<Rightarrow> ResourceLoader \<Rightarrow> string option \<times> ResourceLoader" where
  "getResourceString nm rl =
     (case stringCache rl nm of
        Some cached \<Rightarrow> (cached, rl)
      | None \<Rightarrow>
          (let data = (case zipLoaded rl of
                         ZipArray zs \<Rightarrow> scanString zs nm None
                       | SingleZip z \<Rightarrow> z (assetPath nm))
           in (data, rl\<lparr>stringCache := (stringCache rl)(nm \<mapsto> data)\<rparr>)))"

definition clearCacheResources :: "ResourceLoader \<Rightarrow> ResourceLoader" where
  "clearCacheResources rl = rl\<lparr>stringCache := Map.empty, blobCache := Map.empty\<rparr>"

definition getResourceLoader :: "Zips \<Rightarrow> ResourceLoader" where
  "getResourceLoader z =
     \<lparr>zipLoaded = z, stringCache = Map.empty, blobCache = Map.empty, objectURLs = 0\<rparr>"

text \<open>The first archive of a list that has an entry at a path, as the specification words it.\<close>

fun firstDefining :: "JSZip list \<Rightarrow> string \<Rightarrow> string option" where
  "firstDefining [] path = None"
| "firstDefining (z # zs) path = (case z path of Some d \<Rightarrow> Some d | None \<Rightarrow> firstDefining zs path)"

text \<open>A primary archive with an empty entry, and an overlay with a non-empty one at the same path.\<close>

definition primaryArchive :: JSZip where
  "primaryArchive = [''assets/minecraft/blockstates/stone.json'' \<mapsto> '''']"

definition overlayArchive :: JSZip where
  "overlayArchive = [''assets/minecraft/blockstates/stone.json'' \<mapsto> ''{}'']"

definition emptyArchive :: JSZip where
  "emptyArchive = Map.empty"

section \<open>Numbers\<close>

text \<open>
  A JavaScript number is an IEEE 754 double: a finite value, negative zero, an infinity or
  NaN. A finite value is represented by the rational number it denotes, and \<open>Finite 0\<close> is
  positive zero. The finite doubles other than zero are the numbers \<open>m * 2^e\<close> with an
  integer \<open>m\<close>, \<open>\<bar>m\<bar> < 2^53\<close> and \<open>- 1074 \<le> e \<le> 971\<close>.
\<close>

datatype number = Finite rat | NegativeZero | PositiveInfinity | NegativeInfinity | NaN

text \<open>
  The binary exponent of a rational number other than zero, \<open>2^e \<le> \<bar>r\<bar> < 2^(e+1)\<close>, and the
  distance between neighboring doubles at the magnitude of \<open>r\<close>: the significand has 53
  bits, and the subnormal numbers are \<open>2^(-1074)\<close> apart.
\<close>

definition exponent :: "rat \<Rightarrow> int" where
  "exponent r =
     (case quotient_of \<bar>r\<bar> of (p, q) \<Rightarrow>
        (let d = bitlen p - bitlen q in if 2 powi d \<le> \<bar>r\<bar> then d else d - 1))"

definition ulp :: "rat \<Rightarrow> rat" where
  "ulp r = 2 powi (max (exponent r - 52) (- 1074))"

text \<open>The nearest integer, and of two nearest integers the even one.\<close>

definition roundTiesToEven :: "rat \<Rightarrow> int" where
  "roundTiesToEven x =
     (let f = \<lfloor>x\<rfloor> in
      if x - of_int f < 1 / 2 then f
      else if 1 / 2 < x - of_int f then f + 1
      else if even f then f else f + 1)"

text \<open>
  The number for an exact result: the nearest double, ties to even. A result that rounds
  to \<open>2^1024\<close> or beyond is an infinity, and a result other than zero that rounds to zero is
  the zero of its sign. An exact zero is taken as positive zero; the operations below give
  negative zero where the standard does.
\<close>

definition roundNumber :: "rat \<Rightarrow> number" where
  "roundNumber r =
     (if r = 0 then Finite 0
      else (let v = of_int (roundTiesToEven (r / ulp r)) * ulp r in
            if 2 ^ 1024 \<le> \<bar>v\<bar> then (if 0 < r then PositiveInfinity else NegativeInfinity)
            else if v = 0 then (if r < 0 then NegativeZero else Finite 0)
            else Finite v))"

text \<open>\<^verbatim>\<open>a + b\<close>, \<^verbatim>\<open>-a\<close> and \<^verbatim>\<open>a / 2\<close> on numbers (ECMAScript, Number::add, unaryMinus and divide).\<close>

fun plusNumber :: "number \<Rightarrow> number \<Rightarrow> number" where
  "plusNumber NaN b = NaN"
| "plusNumber a NaN = NaN"
| "plusNumber PositiveInfinity NegativeInfinity = NaN"
| "plusNumber NegativeInfinity PositiveInfinity = NaN"
| "plusNumber PositiveInfinity b = PositiveInfinity"
| "plusNumber NegativeInfinity b = NegativeInfinity"
| "plusNumber a PositiveInfinity = PositiveInfinity"
| "plusNumber a NegativeInfinity = NegativeInfinity"
| "plusNumber NegativeZero b = b"
| "plusNumber a NegativeZero = a"
| "plusNumber (Finite a) (Finite b) = roundNumber (a + b)"

fun negateNumber :: "number \<Rightarrow> number" where
  "negateNumber (Finite a) = (if a = 0 then NegativeZero else Finite (- a))"
| "negateNumber NegativeZero = Finite 0"
| "negateNumber PositiveInfinity = NegativeInfinity"
| "negateNumber NegativeInfinity = PositiveInfinity"
| "negateNumber NaN = NaN"

fun halfNumber :: "number \<Rightarrow> number" where
  "halfNumber (Finite a) = roundNumber (a / 2)"
| "halfNumber NegativeZero = NegativeZero"
| "halfNumber PositiveInfinity = PositiveInfinity"
| "halfNumber NegativeInfinity = NegativeInfinity"
| "halfNumber NaN = NaN"

text \<open>
  The dimensions of a schematic and the coordinates of a position are integers; this is
  the number that holds an integer.
\<close>

definition toNumber :: "int \<Rightarrow> number" where
  "toNumber n = roundNumber (of_int n)"

section \<open>The schematic and the collaborators of the renderer\<close>

text \<open>
  The loaded schematic belongs to the schematic library, which is outside the repository.
  It is represented by what renderer.ts reads of it: the dimensions, the block types, the
  block stored at a position, and the positions it enumerates. Following the interface
  described in the specification, the grid is 0-indexed and bounded by the declared
  width, height and length, \<^verbatim>\<open>getBlock\<close> is empty outside the grid, and iterating over the
  schematic yields every position of the grid once.
\<close>

type_synonym BlockVector3 = "int \<times> int \<times> int"

record Schematic =
  width :: int
  height :: int
  lengthZ :: int
  blockTypes :: "Block list"
  blocks :: "BlockVector3 \<rightharpoonup> Block"

definition contains :: "Schematic \<Rightarrow> BlockVector3 \<Rightarrow> bool" where
  "contains loadedSchematic pos =
     (case pos of (px, py, pz) \<Rightarrow>
        0 \<le> px \<and> px < width loadedSchematic \<and> 0 \<le> py \<and> py < height loadedSchematic
        \<and> 0 \<le> pz \<and> pz < lengthZ loadedSchematic)"

definition getBlock :: "Schematic \<Rightarrow> BlockVector3 \<Rightarrow> Block option" where
  "getBlock loadedSchematic pos =
     (if contains loadedSchematic pos then blocks loadedSchematic pos else None)"

definition positions :: "Schematic \<Rightarrow> BlockVector3 list" where
  "positions loadedSchematic =
     concat (map (\<lambda>py. concat (map (\<lambda>pz. map (\<lambda>px. (px, py, pz))
       [0..width loadedSchematic - 1]) [0..lengthZ loadedSchematic - 1])) [0..height loadedSchematic - 1])"

text \<open>
  Resolved model data (model/types.ts is not among the sources): renderer.ts reads only
  the number of models. A model is represented by its name.
\<close>

record BlockModelData =
  models :: "string list"

type_synonym BlockStateDefinition = string

type_synonym BlockModelOption = string

text \<open>
  A mesh of the display engine, by what renderer.ts reads and writes of it: the name, whether
  it is an \<^verbatim>\<open>InstancedMesh\<close>, the position, and whether its world matrix is frozen. Meshes are
  objects; here a mesh is known by these fields, and two meshes with the same fields are
  not told apart.
\<close>

record Mesh =
  name :: string
  instanced :: bool
  position :: "number \<times> number \<times> number"
  worldMatrixFrozen :: bool

text \<open>
  The scene: the array \<^verbatim>\<open>scene.meshes\<close> and the flags renderer.ts sets, with two counters
  that record the calls of \<^verbatim>\<open>dispose()\<close> on meshes and of \<^verbatim>\<open>scene.render()\<close>.
\<close>

record Scene =
  meshes :: "Mesh list"
  blockMaterialDirtyMechanism :: bool
  materialsFrozen :: bool
  disposedMeshes :: "Mesh list"
  framesRendered :: nat

datatype fault = ParseFailed | FetchRejected | ModelRejected | TypeError

text \<open>
  What the renderer is given and what is not among the sources, as parameters:
  the two block sets of utils.ts, the parser of the schematic library (\<open>None\<close>: it throws),
  \<^verbatim>\<open>loadBlockStateDefinition\<close> (\<open>None\<close>: the promise is rejected), and the model loader with a
  state \<open>'l\<close> of its own (its caches and its random source): \<^verbatim>\<open>getBlockModelData\<close>,
  \<^verbatim>\<open>getModelOption\<close>, \<^verbatim>\<open>getModel\<close> (\<open>None\<close>: rejected; a mesh of the result may be null) and
  \<^verbatim>\<open>clearCache\<close>. The meshes returned by \<^verbatim>\<open>getModel\<close> are new objects, and they reach
  \<^verbatim>\<open>scene.meshes\<close> by the calls of \<^verbatim>\<open>scene.addMesh\<close> in renderer.ts: the model loader is taken
  to leave the array as it is. \<open>engineDispose\<close> is what \<^verbatim>\<open>engine.dispose()\<close> of the display
  engine does to the scene; the engine disposes its scenes, and a disposed scene has no
  mesh, as in the example below.
\<close>

record 'l Env =
  INVISIBLE_BLOCKS :: "string set"
  NON_OCCLUDING_BLOCKS :: "string set"
  loadSchematic :: "string \<Rightarrow> Schematic option"
  loadBlockStateDefinition :: "string \<Rightarrow> BlockStateDefinition option"
  getBlockModelData :: "Block \<Rightarrow> BlockStateDefinition \<Rightarrow> BlockModelData"
  getModelOption :: "BlockModelData \<Rightarrow> 'l \<Rightarrow> BlockModelOption \<times> 'l"
  getModel :: "BlockModelOption \<Rightarrow> Block \<Rightarrow> 'l \<Rightarrow> Mesh option list option \<times> 'l"
  clearCache :: "'l \<Rightarrow> 'l"
  getModelLoader :: "'l"
  addArrowToScene :: "number \<Rightarrow> Mesh list"
  addBarsToScene :: "number \<Rightarrow> number \<times> number \<times> number \<Rightarrow> Mesh list"
  engineDispose :: "Scene \<Rightarrow> Scene"

text \<open>
  Modelled from the spec: \<^verbatim>\<open>POSSIBLE_FACES\<close> (model/types.ts) and \<^verbatim>\<open>faceToFacingVector\<close>
  (utils.ts) are not among the sources. The specification names the six axis-aligned
  faces up, down, north, south, east and west; each maps to the unit vector towards the
  neighbor on that side.
\<close>

datatype Face = Up | Down | North | South | East | West

definition POSSIBLE_FACES :: "Face list" where
  "POSSIBLE_FACES = [Up, Down, North, South, East, West]"

fun faceToFacingVector :: "Face \<Rightarrow> int \<times> int \<times> int" where
  "faceToFacingVector Up = (0, 1, 0)"
| "faceToFacingVector Down = (0, -1, 0)"
| "faceToFacingVector North = (0, 0, -1)"
| "faceToFacingVector South = (0, 0, 1)"
| "faceToFacingVector East = (1, 0, 0)"
| "faceToFacingVector West = (-1, 0, 0)"

section \<open>Populating the lookup (renderer.ts, updateBlockModelLookup)\<close>

text \<open>
  The loop over \<^verbatim>\<open>loadedSchematic.blockTypes\<close>. The map is updated in place, so it is
  returned also when the loop is left by a rejected promise. The last component records
  the blocks for which \<^verbatim>\<open>loadBlockStateDefinition\<close> was called, in order. The values of
  the map are objects, so \<^verbatim>\<open>blockModelLookup.get(key)\<close> is truthy exactly when the key is
  present.
\<close>

fun updateLoop ::
  "'l Env \<Rightarrow> Block list \<Rightarrow> (string \<rightharpoonup> BlockModelData) \<Rightarrow> Block list
     \<Rightarrow> fault option \<times> (string \<rightharpoonup> BlockModelData) \<times> Block list" where
  "updateLoop env [] blockModelLookup calls = (None, blockModelLookup, calls)"
| "updateLoop env (block # rest) blockModelLookup calls =
     (if type block \<in> INVISIBLE_BLOCKS env then updateLoop env rest blockModelLookup calls
      else if blockModelLookup (hashBlockForMap block) \<noteq> None
      then updateLoop env rest blockModelLookup calls
      else (case loadBlockStateDefinition env (type block) of
              None \<Rightarrow> (Some FetchRejected, blockModelLookup, calls @ [block])
            | Some blockState \<Rightarrow>
                (let blockModelData = getBlockModelData env block blockState
                 in if models blockModelData = []
                    then updateLoop env rest blockModelLookup (calls @ [block])
                    else updateLoop env rest
                           (blockModelLookup(hashBlockForMap block \<mapsto> blockModelData))
                           (calls @ [block]))))"

definition updateBlockModelLookup ::
  "'l Env \<Rightarrow> (string \<rightharpoonup> BlockModelData) \<Rightarrow> Schematic
     \<Rightarrow> fault option \<times> (string \<rightharpoonup> BlockModelData) \<times> Block list" where
  "updateBlockModelLookup env blockModelLookup loadedSchematic =
     updateLoop env (blockTypes loadedSchematic) blockModelLookup []"

section \<open>Culling and assembly (renderer.ts, computeSchematicMesh)\<close>

text \<open>
  The loop over \<^verbatim>\<open>POSSIBLE_FACES\<close>: the value of \<^verbatim>\<open>anyVisible\<close> after the loop, and the faces
  whose neighbor was read, in order. The loop is left at the first face whose neighbor is
  absent or of a non-occluding type.
\<close>

fun anyVisibleLoop :: "'l Env \<Rightarrow> Schematic \<Rightarrow> BlockVector3 \<Rightarrow> Face list \<Rightarrow> bool \<times> Face list" where
  "anyVisibleLoop env loadedSchematic pos [] = (False, [])"
| "anyVisibleLoop env loadedSchematic pos (face # faces) =
     (case (pos, faceToFacingVector face) of ((px, py, pz), (dx, dy, dz)) \<Rightarrow>
        (case getBlock loadedSchematic (px + dx, py + dy, pz + dz) of
           None \<Rightarrow> (True, [face])
         | Some offBlock \<Rightarrow>
             if type offBlock \<in> NON_OCCLUDING_BLOCKS env then (True, [face])
             else (case anyVisibleLoop env loadedSchematic pos faces of
                     (anyVisible, examined) \<Rightarrow> (anyVisible, face # examined))))"

definition addMesh :: "Mesh \<Rightarrow> Scene \<Rightarrow> Scene" where
  "addMesh mesh scene = scene\<lparr>meshes := meshes scene @ [mesh]\<rparr>"

text \<open>
  \<^verbatim>\<open>scene.removeMesh(toRemove)\<close> of the display engine, Babylon.js from version 5 (renderer.ts
  imports \<^verbatim>\<open>ScenePerformancePriority\<close> and \<^verbatim>\<open>WebGPUEngine\<close>):
  \<^verbatim>\<open>const index = this.meshes.indexOf(toRemove); if (index !== -1) { this.meshes[index] = this.meshes[this.meshes.length - 1]; this.meshes.pop(); }\<close>
  The last mesh of the array takes the place of the removed one.
\<close>

definition indexOf :: "'a list \<Rightarrow> 'a \<Rightarrow> nat option" where
  "indexOf xs x =
     (if x \<in> set xs then Some (length (takeWhile (\<lambda>y. y \<noteq> x) xs)) else None)"

definition removeMesh :: "Mesh \<Rightarrow> Scene \<Rightarrow> Scene" where
  "removeMesh toRemove scene =
     (case indexOf (meshes scene) toRemove of
        None \<Rightarrow> scene
      | Some index \<Rightarrow>
          scene\<lparr>meshes := butlast ((meshes scene)[index := last (meshes scene)])\<rparr>)"

text \<open>
  \<^verbatim>\<open>mesh.dispose()\<close> takes the mesh out of its scene and releases it; on a mesh that has
  been removed from the scene before, it only releases it.
\<close>

definition released :: "Mesh \<Rightarrow> Scene \<Rightarrow> Scene" where
  "released mesh scene = scene\<lparr>disposedMeshes := disposedMeshes scene @ [mesh]\<rparr>"

definition dispose :: "Mesh \<Rightarrow> Scene \<Rightarrow> Scene" where
  "dispose mesh scene = released mesh (removeMesh mesh scene)"

text \<open>
  \<^verbatim>\<open>mesh.position.x += xTranslation + x; ... mesh.freezeWorldMatrix();\<close>
\<close>

definition translate :: "number \<times> number \<times> number \<Rightarrow> BlockVector3 \<Rightarrow> Mesh \<Rightarrow> Mesh" where
  "translate translation pos mesh =
     (case (translation, pos, position mesh) of
        ((xTranslation, yTranslation, zTranslation), (px, py, pz), (mx, my, mz)) \<Rightarrow>
          mesh\<lparr>position := (plusNumber mx (plusNumber xTranslation (toNumber px)),
                             plusNumber my (plusNumber yTranslation (toNumber py)),
                             plusNumber mz (plusNumber zTranslation (toNumber pz))),
                worldMatrixFrozen := True\<rparr>)"

fun addMeshes :: "number \<times> number \<times> number \<Rightarrow> BlockVector3 \<Rightarrow> Mesh option list \<Rightarrow> Scene \<Rightarrow> Scene" where
  "addMeshes translation pos [] scene = scene"
| "addMeshes translation pos (None # rest) scene = addMeshes translation pos rest scene"
| "addMeshes translation pos (Some mesh # rest) scene =
     addMeshes translation pos rest (addMesh (translate translation pos mesh) scene)"

text \<open>
  The end of the loop body, reached when a face is exposed: the variant is chosen, the
  model is fetched and each of its meshes is placed and added to the scene.
\<close>

definition placeModel ::
  "'l Env \<Rightarrow> number \<times> number \<times> number \<Rightarrow> BlockVector3 \<Rightarrow> Block \<Rightarrow> BlockModelData
     \<Rightarrow> Scene \<times> 'l \<Rightarrow> fault option \<times> Scene \<times> 'l" where
  "placeModel env translation pos block modelData state =
     (case state of (scene, loader) \<Rightarrow>
        (case getModelOption env modelData loader of
           (option, loader1) \<Rightarrow>
             (case getModel env option block loader1 of
                (None, loader2) \<Rightarrow> (Some ModelRejected, scene, loader2)
              | (Some ms, loader2) \<Rightarrow> (None, addMeshes translation pos ms scene, loader2))))"

text \<open>The body of the loop over the positions, for one position.\<close>

definition computeVoxel ::
  "'l Env \<Rightarrow> Schematic \<Rightarrow> (string \<rightharpoonup> BlockModelData) \<Rightarrow> number \<times> number \<times> number \<Rightarrow> BlockVector3
     \<Rightarrow> Scene \<times> 'l \<Rightarrow> fault option \<times> Scene \<times> 'l" where
  "computeVoxel env loadedSchematic blockModelLookup translation pos state =
     (case getBlock loadedSchematic pos of
        None \<Rightarrow> (None, fst state, snd state)
      | Some block \<Rightarrow>
          if type block \<in> INVISIBLE_BLOCKS env then (None, fst state, snd state)
          else (case blockModelLookup (hashBlockForMap block) of
                  None \<Rightarrow> (None, fst state, snd state)
                | Some modelData \<Rightarrow>
                    if \<not> fst (anyVisibleLoop env loadedSchematic pos POSSIBLE_FACES)
                    then (None, fst state, snd state)
                    else placeModel env translation pos block modelData state))"

fun computeLoop ::
  "'l Env \<Rightarrow> Schematic \<Rightarrow> (string \<rightharpoonup> BlockModelData) \<Rightarrow> number \<times> number \<times> number \<Rightarrow> BlockVector3 list
     \<Rightarrow> Scene \<times> 'l \<Rightarrow> fault option \<times> Scene \<times> 'l" where
  "computeLoop env loadedSchematic blockModelLookup translation [] state =
     (None, fst state, snd state)"
| "computeLoop env loadedSchematic blockModelLookup translation (pos # rest) state =
     (case computeVoxel env loadedSchematic blockModelLookup translation pos state of
        (Some f, scene, loader) \<Rightarrow> (Some f, scene, loader)
      | (None, scene, loader) \<Rightarrow>
          computeLoop env loadedSchematic blockModelLookup translation rest (scene, loader))"

text \<open>
  \<^verbatim>\<open>const xTranslation = -worldWidth / 2 + 0.5;\<close> and the same for the other two axes.
\<close>

definition worldTranslation :: "number \<times> number \<times> number \<Rightarrow> number \<times> number \<times> number" where
  "worldTranslation world =
     (case world of (worldWidth, worldHeight, worldLength) \<Rightarrow>
        (plusNumber (halfNumber (negateNumber worldWidth)) (Finite (1 / 2)),
         plusNumber (halfNumber (negateNumber worldHeight)) (Finite (1 / 2)),
         plusNumber (halfNumber (negateNumber worldLength)) (Finite (1 / 2))))"

definition computeSchematicMesh ::
  "'l Env \<Rightarrow> Schematic \<Rightarrow> (string \<rightharpoonup> BlockModelData) \<Rightarrow> Scene \<times> 'l \<Rightarrow> number \<times> number \<times> number
     \<Rightarrow> fault option \<times> Scene \<times> 'l" where
  "computeSchematicMesh env loadedSchematic blockModelLookup state world =
     (case computeLoop env loadedSchematic blockModelLookup (worldTranslation world)
             (positions loadedSchematic)
             ((fst state)\<lparr>blockMaterialDirtyMechanism := True\<rparr>, snd state) of
        (Some f, scene', loader') \<Rightarrow> (Some f, scene', loader')
      | (None, scene', loader') \<Rightarrow>
          (None, scene'\<lparr>blockMaterialDirtyMechanism := False\<rparr>, loader'))"

text \<open>\<^verbatim>\<open>addGrid\<close>: a ground mesh named \<^verbatim>\<open>ground\<close> at the given height.\<close>

definition groundAt :: "number \<Rightarrow> Mesh" where
  "groundAt gridHeight =
     \<lparr>name = ''ground'', instanced = False, position = (Finite 0, gridHeight, Finite 0),
      worldMatrixFrozen = False\<rparr>"

definition addGrid :: "Scene \<Rightarrow> number \<Rightarrow> Scene" where
  "addGrid scene gridHeight = addMesh (groundAt gridHeight) scene"

section \<open>The session (renderer.ts, renderSchematic and its handles)\<close>

text \<open>
  The options of \<^verbatim>\<open>renderSchematic\<close> that decide which meshes and which render loop exist.
  The camera, the light, the background and the debug layer are not represented.
\<close>

record SchematicRenderOptions =
  renderArrow :: bool
  renderBars :: bool
  disableAutoRender :: bool
  sizeOption :: "(int \<times> int) option"

text \<open>
  The variables the handles close over: the lookup, the scene, the model loader, the flag
  \<^verbatim>\<open>hasDestroyed\<close>, and of the engine whether it was disposed, whether \<^verbatim>\<open>render\<close> was given to
  \<^verbatim>\<open>runRenderLoop\<close>, and its size. \<open>resolved\<close> records, for the whole session, the blocks for
  which \<^verbatim>\<open>loadBlockStateDefinition\<close> was called.
\<close>

record 'l Session =
  blockModelLookup :: "string \<rightharpoonup> BlockModelData"
  scene :: Scene
  modelLoader :: 'l
  hasDestroyed :: bool
  engineDisposed :: bool
  renderLoopStarted :: bool
  engineSize :: "(int \<times> int) option"
  resolved :: "Block list"

definition newScene :: Scene where
  "newScene = \<lparr>meshes = [], blockMaterialDirtyMechanism = False, materialsFrozen = False,
                disposedMeshes = [], framesRendered = 0\<rparr>"

definition worldOf :: "Schematic \<Rightarrow> number \<times> number \<times> number" where
  "worldOf loadedSchematic =
     (toNumber (width loadedSchematic), toNumber (height loadedSchematic),
      toNumber (lengthZ loadedSchematic))"

definition addAll :: "Mesh list \<Rightarrow> Scene \<Rightarrow> Scene" where
  "addAll ms sc = foldl (\<lambda>sc' mesh. addMesh mesh sc') sc ms"

text \<open>
  \<^verbatim>\<open>renderSchematic\<close>: a thrown error or a rejected promise leaves no session.
\<close>

definition renderSchematic ::
  "'l Env \<Rightarrow> string \<Rightarrow> SchematicRenderOptions \<Rightarrow> fault + 'l Session" where
  "renderSchematic env schematic options =
     (case loadSchematic env schematic of
        None \<Rightarrow> Inl ParseFailed
      | Some loadedSchematic \<Rightarrow>
          (let world = worldOf loadedSchematic;
               cameraOffset =
                 plusNumber
                   (halfNumber (toNumber (max (max (width loadedSchematic) (lengthZ loadedSchematic))
                                            (height loadedSchematic))))
                   (Finite 1)
           in case updateBlockModelLookup env Map.empty loadedSchematic of
                (Some f, lookup, calls) \<Rightarrow> Inl f
              | (None, lookup, calls) \<Rightarrow>
                  (case computeSchematicMesh env loadedSchematic lookup
                          (addGrid newScene (halfNumber (negateNumber (fst (snd world)))),
                           getModelLoader env) world of
                     (Some f, sc, loader) \<Rightarrow> Inl f
                   | (None, sc, loader) \<Rightarrow>
                       (let sc1 = (if renderArrow options
                                   then addAll (addArrowToScene env cameraOffset) sc else sc);
                            sc2 = (if renderBars options
                                   then addAll (addBarsToScene env cameraOffset world) sc1 else sc1)
                        in Inr \<lparr>blockModelLookup = lookup,
                                scene = sc2\<lparr>materialsFrozen := True\<rparr>,
                                modelLoader = loader,
                                hasDestroyed = False,
                                engineDisposed = False,
                                renderLoopStarted = (\<not> disableAutoRender options),
                                engineSize = sizeOption options,
                                resolved = calls\<rparr>))))"

text \<open>
  \<^verbatim>\<open>swapSchematic\<close>. The session is updated in place, so its state is returned also when the
  call fails: with the new schematic unparsable, with no mesh named \<^verbatim>\<open>ground\<close> (the call
  \<^verbatim>\<open>groundMesh.dispose()\<close> on undefined), or with a rejected promise.
\<close>

definition removeInstanced :: "Scene \<Rightarrow> Scene" where
  "removeInstanced sc =
     foldl (\<lambda>sc' instancedMesh. released instancedMesh (removeMesh instancedMesh sc')) sc
       (filter instanced (meshes sc))"

definition swapSchematic :: "'l Env \<Rightarrow> string \<Rightarrow> 'l Session \<Rightarrow> fault option \<times> 'l Session" where
  "swapSchematic env newSchematicString s =
     (let s1 = s\<lparr>scene := removeInstanced (scene s),
                 modelLoader := clearCache env (modelLoader s)\<rparr>
      in case loadSchematic env newSchematicString of
           None \<Rightarrow> (Some ParseFailed, s1)
         | Some newLoadedSchematic \<Rightarrow>
             (case find (\<lambda>mesh. name mesh = ''ground'') (meshes (scene s1)) of
                None \<Rightarrow> (Some TypeError, s1)
              | Some groundMesh \<Rightarrow>
                  (let s2 = s1\<lparr>scene := addGrid (dispose groundMesh (scene s1))
                                           (halfNumber (negateNumber (toNumber (height newLoadedSchematic))))\<rparr>
                   in case updateBlockModelLookup env (blockModelLookup s2) newLoadedSchematic of
                        (Some f, lookup, calls) \<Rightarrow>
                          (Some f, s2\<lparr>blockModelLookup := lookup, resolved := resolved s2 @ calls\<rparr>)
                      | (None, lookup, calls) \<Rightarrow>
                          (let s3 = s2\<lparr>blockModelLookup := lookup, resolved := resolved s2 @ calls\<rparr>
                           in case computeSchematicMesh env newLoadedSchematic lookup
                                     (scene s3, modelLoader s3) (worldOf newLoadedSchematic) of
                                (Some f, sc, loader) \<Rightarrow>
                                  (Some f, s3\<lparr>scene := sc, modelLoader := loader\<rparr>)
                              | (None, sc, loader) \<Rightarrow>
                                  (None, s3\<lparr>scene := sc\<lparr>materialsFrozen := True\<rparr>,
                                            modelLoader := loader,
                                            renderLoopStarted := True\<rparr>)))))"

text \<open>\<^verbatim>\<open>const render = () => { if (hasDestroyed) { return; } scene.render(); };\<close>\<close>

definition render :: "'l Session \<Rightarrow> 'l Session" where
  "render s =
     (if hasDestroyed s then s
      else s\<lparr>scene := (scene s)\<lparr>framesRendered := framesRendered (scene s) + 1\<rparr>\<rparr>)"

text \<open>\<^verbatim>\<open>destroy() { engine.dispose(); hasDestroyed = true; }\<close>\<close>

definition destroy :: "'l Env \<Rightarrow> 'l Session \<Rightarrow> 'l Session" where
  "destroy env s =
     s\<lparr>scene := engineDispose env (scene s), engineDisposed := True, hasDestroyed := True\<rparr>"

definition setSize :: "int \<Rightarrow> int \<Rightarrow> 'l Session \<Rightarrow> 'l Session" where
  "setSize w h s = s\<lparr>engineSize := Some (w, h)\<rparr>"

definition resize :: "int \<Rightarrow> 'l Session \<Rightarrow> 'l Session" where
  "resize n s = s\<lparr>engineSize := Some (n, n)\<rparr>"

text \<open>
  The calls a holder of the handles can make, one after the other (each awaited), and the
  session after a sequence of them. A failed call leaves the session as the call left it.
\<close>

datatype Call = SwapSchematic string | Resize int | SetSize int int | Destroy | Render | GetEngine

fun handle :: "'l Env \<Rightarrow> Call \<Rightarrow> 'l Session \<Rightarrow> fault option \<times> 'l Session" where
  "handle env (SwapSchematic newSchematicString) s = swapSchematic env newSchematicString s"
| "handle env (Resize n) s = (None, resize n s)"
| "handle env (SetSize w h) s = (None, setSize w h s)"
| "handle env Destroy s = (None, destroy env s)"
| "handle env Render s = (None, render s)"
| "handle env GetEngine s = (None, s)"

fun calls :: "'l Env \<Rightarrow> Call list \<Rightarrow> 'l Session \<Rightarrow> 'l Session" where
  "calls env [] s = s"
| "calls env (c # cs) s = calls env cs (snd (handle env c s))"

section \<open>Overlapping swaps\<close>

text \<open>
  \<^verbatim>\<open>swapSchematic\<close> is an async function: a call runs up to its first \<^verbatim>\<open>await\<close> and returns, and
  the rest runs later, piece by piece. The pieces represented here are the three between
  the \<^verbatim>\<open>await\<close>s of \<^verbatim>\<open>swapSchematic\<close> itself: the statements before
  \<^verbatim>\<open>await updateBlockModelLookup(...)\<close>, that call, and \<^verbatim>\<open>await computeSchematicMesh(...)\<close> with
  the statements after it. (The two loops suspend inside as well; those points are not
  represented.) A swap that has begun and not finished is in flight, waiting for its next
  piece. All swaps work on the one session.
\<close>

datatype Phase = Loading Schematic | Assembling Schematic

definition swapBegin ::
  "'l Env \<Rightarrow> string \<Rightarrow> 'l Session \<Rightarrow> fault option \<times> 'l Session \<times> Phase option" where
  "swapBegin env newSchematicString s =
     (let s1 = s\<lparr>scene := removeInstanced (scene s),
                 modelLoader := clearCache env (modelLoader s)\<rparr>
      in case loadSchematic env newSchematicString of
           None \<Rightarrow> (Some ParseFailed, s1, None)
         | Some newLoadedSchematic \<Rightarrow>
             (case find (\<lambda>mesh. name mesh = ''ground'') (meshes (scene s1)) of
                None \<Rightarrow> (Some TypeError, s1, None)
              | Some groundMesh \<Rightarrow>
                  (None,
                   s1\<lparr>scene := addGrid (dispose groundMesh (scene s1))
                                   (halfNumber (negateNumber (toNumber (height newLoadedSchematic))))\<rparr>,
                   Some (Loading newLoadedSchematic))))"

fun swapResume ::
  "'l Env \<Rightarrow> Phase \<Rightarrow> 'l Session \<Rightarrow> fault option \<times> 'l Session \<times> Phase option" where
  "swapResume env (Loading newLoadedSchematic) s =
     (case updateBlockModelLookup env (blockModelLookup s) newLoadedSchematic of
        (Some f, lookup, new) \<Rightarrow>
          (Some f, s\<lparr>blockModelLookup := lookup, resolved := resolved s @ new\<rparr>, None)
      | (None, lookup, new) \<Rightarrow>
          (None, s\<lparr>blockModelLookup := lookup, resolved := resolved s @ new\<rparr>,
           Some (Assembling newLoadedSchematic)))"
| "swapResume env (Assembling newLoadedSchematic) s =
     (case computeSchematicMesh env newLoadedSchematic (blockModelLookup s)
             (scene s, modelLoader s) (worldOf newLoadedSchematic) of
        (Some f, sc, loader) \<Rightarrow> (Some f, s\<lparr>scene := sc, modelLoader := loader\<rparr>, None)
      | (None, sc, loader) \<Rightarrow>
          (None, s\<lparr>scene := sc\<lparr>materialsFrozen := True\<rparr>, modelLoader := loader,
                    renderLoopStarted := True\<rparr>, None))"

text \<open>
  The session together with the swaps in flight, and what can happen: the holder of the
  handles issues a swap, or one of the swaps in flight runs its next piece.
\<close>

record 'l Running =
  session :: "'l Session"
  inFlight :: "Phase list"

datatype Event = Issue string | Resume nat

definition issue :: "'l Env \<Rightarrow> string \<Rightarrow> 'l Running \<Rightarrow> 'l Running" where
  "issue env newSchematicString running =
     (case swapBegin env newSchematicString (session running) of
        (r, s, None) \<Rightarrow> running\<lparr>session := s\<rparr>
      | (r, s, Some phase) \<Rightarrow>
          running\<lparr>session := s, inFlight := inFlight running @ [phase]\<rparr>)"

definition resume :: "'l Env \<Rightarrow> nat \<Rightarrow> 'l Running \<Rightarrow> 'l Running" where
  "resume env i running =
     (if i < length (inFlight running)
      then (case swapResume env (inFlight running ! i) (session running) of
              (r, s, None) \<Rightarrow>
                running\<lparr>session := s,
                         inFlight := take i (inFlight running) @ drop (Suc i) (inFlight running)\<rparr>
            | (r, s, Some phase) \<Rightarrow>
                running\<lparr>session := s, inFlight := (inFlight running)[i := phase]\<rparr>)
      else running)"

fun fire :: "'l Env \<Rightarrow> Event \<Rightarrow> 'l Running \<Rightarrow> 'l Running" where
  "fire env (Issue newSchematicString) running = issue env newSchematicString running"
| "fire env (Resume i) running = resume env i running"

fun schedule :: "'l Env \<Rightarrow> Event list \<Rightarrow> 'l Running \<Rightarrow> 'l Running" where
  "schedule env [] running = running"
| "schedule env (e # es) running = schedule env es (fire env e running)"

text \<open>The holder of the handles issues a swap only when no swap is in flight.\<close>

fun awaited :: "'l Env \<Rightarrow> Event list \<Rightarrow> 'l Running \<Rightarrow> bool" where
  "awaited env [] running = True"
| "awaited env (Issue newSchematicString # es) running =
     (inFlight running = [] \<and> awaited env es (issue env newSchematicString running))"
| "awaited env (Resume i # es) running = awaited env es (resume env i running)"

definition idle :: "'l Session \<Rightarrow> 'l Running" where
  "idle s = \<lparr>session = s, inFlight = []\<rparr>"

section \<open>The statements of the specification, and example data\<close>

text \<open>
  The culling rule in the words of the specification: the six axis-aligned neighbors of a
  position, and a neighbor position that exposes the face towards it (out of the grid
  bounds, holding no block, or holding a block of a non-occluding type).
\<close>

definition neighbors :: "BlockVector3 \<Rightarrow> BlockVector3 list" where
  "neighbors pos =
     (case pos of (px, py, pz) \<Rightarrow>
        [(px, py + 1, pz), (px, py - 1, pz), (px, py, pz - 1), (px, py, pz + 1),
         (px + 1, py, pz), (px - 1, py, pz)])"

definition exposing :: "'l Env \<Rightarrow> Schematic \<Rightarrow> BlockVector3 \<Rightarrow> bool" where
  "exposing env loadedSchematic pos =
     (\<not> contains loadedSchematic pos
      \<or> (case blocks loadedSchematic pos of
            None \<Rightarrow> True
          | Some offBlock \<Rightarrow> type offBlock \<in> NON_OCCLUDING_BLOCKS env))"

definition neighborAt :: "BlockVector3 \<Rightarrow> Face \<Rightarrow> BlockVector3" where
  "neighborAt pos face =
     (case (pos, faceToFacingVector face) of ((px, py, pz), (dx, dy, dz)) \<Rightarrow>
        (px + dx, py + dy, pz + dz))"

text \<open>
  The placement in the words of the specification: the fragment of the voxel at
  \<open>(x, y, z)\<close> in a structure of the given dimensions is moved by
  \<open>- dimension / 2 + 0.5 + coordinate\<close> on each axis. \<open>axisOffset\<close> is the formula computed
  on numbers, as is the move, and \<open>offset\<close> is the exact value of the formula.
\<close>

definition axisOffset :: "number \<Rightarrow> int \<Rightarrow> number" where
  "axisOffset dimension coordinate =
     plusNumber (plusNumber (halfNumber (negateNumber dimension)) (Finite (1 / 2)))
       (toNumber coordinate)"

definition fragmentAt :: "number \<times> number \<times> number \<Rightarrow> BlockVector3 \<Rightarrow> Mesh \<Rightarrow> Mesh" where
  "fragmentAt world pos mesh =
     (case (world, pos, position mesh) of
        ((worldWidth, worldHeight, worldLength), (px, py, pz), (mx, my, mz)) \<Rightarrow>
          mesh\<lparr>position := (plusNumber mx (axisOffset worldWidth px),
                             plusNumber my (axisOffset worldHeight py),
                             plusNumber mz (axisOffset worldLength pz)),
                worldMatrixFrozen := True\<rparr>)"

definition offset :: "int \<Rightarrow> int \<Rightarrow> rat" where
  "offset dimension coordinate = - of_int dimension / 2 + 1 / 2 + of_int coordinate"

text \<open>The non-null meshes of a result of \<^verbatim>\<open>getModel\<close>.\<close>

fun present :: "Mesh option list \<Rightarrow> Mesh list" where
  "present [] = []"
| "present (None # rest) = present rest"
| "present (Some mesh # rest) = mesh # present rest"

text \<open>
  The fragments of a structure in the words of the specification. A voxel requires
  geometry when one of its six neighbors is exposing; the fragments of such a voxel are the
  meshes of its model, each placed by \<open>fragmentAt\<close>. The fragments of a list of positions
  are those of its voxels, in order, up to the first rejected model.
\<close>

definition requiresGeometry :: "'l Env \<Rightarrow> Schematic \<Rightarrow> BlockVector3 \<Rightarrow> bool" where
  "requiresGeometry env loadedSchematic pos =
     (\<exists>n \<in> set (neighbors pos). exposing env loadedSchematic n)"

definition voxelFragments ::
  "'l Env \<Rightarrow> Schematic \<Rightarrow> (string \<rightharpoonup> BlockModelData) \<Rightarrow> number \<times> number \<times> number \<Rightarrow> BlockVector3 \<Rightarrow> 'l
     \<Rightarrow> fault option \<times> Mesh list \<times> 'l" where
  "voxelFragments env loadedSchematic lookup world pos loader =
     (case getBlock loadedSchematic pos of
        None \<Rightarrow> (None, [], loader)
      | Some block \<Rightarrow>
          if type block \<in> INVISIBLE_BLOCKS env then (None, [], loader)
          else (case lookup (hashBlockForMap block) of
                  None \<Rightarrow> (None, [], loader)
                | Some modelData \<Rightarrow>
                    if \<not> requiresGeometry env loadedSchematic pos then (None, [], loader)
                    else (case getModelOption env modelData loader of
                            (option, loader1) \<Rightarrow>
                              (case getModel env option block loader1 of
                                 (None, loader2) \<Rightarrow> (Some ModelRejected, [], loader2)
                               | (Some ms, loader2) \<Rightarrow>
                                   (None, map (fragmentAt world pos) (present ms), loader2)))))"

fun fragmentsLoop ::
  "'l Env \<Rightarrow> Schematic \<Rightarrow> (string \<rightharpoonup> BlockModelData) \<Rightarrow> number \<times> number \<times> number \<Rightarrow> BlockVector3 list \<Rightarrow> 'l
     \<Rightarrow> fault option \<times> Mesh list \<times> 'l" where
  "fragmentsLoop env loadedSchematic lookup world [] loader = (None, [], loader)"
| "fragmentsLoop env loadedSchematic lookup world (pos # rest) loader =
     (case voxelFragments env loadedSchematic lookup world pos loader of
        (Some f, fragments, loader1) \<Rightarrow> (Some f, fragments, loader1)
      | (None, fragments, loader1) \<Rightarrow>
          (case fragmentsLoop env loadedSchematic lookup world rest loader1 of
             (r, others, loader2) \<Rightarrow> (r, fragments @ others, loader2)))"

definition assembled ::
  "'l Env \<Rightarrow> Schematic \<Rightarrow> (string \<rightharpoonup> BlockModelData) \<Rightarrow> 'l \<Rightarrow> Mesh list" where
  "assembled env loadedSchematic lookup loader =
     fst (snd (fragmentsLoop env loadedSchematic lookup (worldOf loadedSchematic)
                 (positions loadedSchematic) loader))"

text \<open>
  The Load step in the words of the specification. The resolution of a block type that is
  not invisible is the model data computed from its state definition, when that has at
  least one model. After a Load the lookup holds what it held before, and else, for a key
  of one of the block types of the structure, the resolution of that block type.
\<close>

definition resolution :: "'l Env \<Rightarrow> Block \<Rightarrow> BlockModelData option" where
  "resolution env b =
     (if type b \<in> INVISIBLE_BLOCKS env then None
      else (case loadBlockStateDefinition env (type b) of
              None \<Rightarrow> None
            | Some blockState \<Rightarrow>
                (if models (getBlockModelData env b blockState) = [] then None
                 else Some (getBlockModelData env b blockState))))"

definition loaded ::
  "'l Env \<Rightarrow> (string \<rightharpoonup> BlockModelData) \<Rightarrow> Block list \<Rightarrow> (string \<rightharpoonup> BlockModelData)" where
  "loaded env lookup bs k =
     (case lookup k of
        Some d \<Rightarrow> Some d
      | None \<Rightarrow>
          (case find (\<lambda>b. hashBlockForMap b = k) bs of
             None \<Rightarrow> None
           | Some b \<Rightarrow> resolution env b))"

text \<open>
  Example data: stone is opaque, glass is non-occluding, air is invisible, and the model
  data of a barrier has no models. The example loader counts the models it has built and
  returns one instanced mesh at the origin, named after the model.
\<close>

definition stone :: Block where
  "stone = \<lparr>type = ''stone'', properties = []\<rparr>"

definition glass :: Block where
  "glass = \<lparr>type = ''glass'', properties = []\<rparr>"

definition air :: Block where
  "air = \<lparr>type = ''air'', properties = []\<rparr>"

definition barrier :: Block where
  "barrier = \<lparr>type = ''barrier'', properties = []\<rparr>"

text \<open>Width 2, height 1, length 1, with stone at \<open>(0,0,0)\<close> and at \<open>(1,0,0)\<close>.\<close>

definition pairSchematic :: Schematic where
  "pairSchematic =
     \<lparr>width = 2, height = 1, lengthZ = 1, blockTypes = [stone],
      blocks = [(0, 0, 0) \<mapsto> stone, (1, 0, 0) \<mapsto> stone]\<rparr>"

text \<open>A single barrier, and a single pane of glass.\<close>

definition barrierSchematic :: Schematic where
  "barrierSchematic =
     \<lparr>width = 1, height = 1, lengthZ = 1, blockTypes = [barrier],
      blocks = [(0, 0, 0) \<mapsto> barrier]\<rparr>"

definition glassSchematic :: Schematic where
  "glassSchematic =
     \<lparr>width = 1, height = 1, lengthZ = 1, blockTypes = [glass],
      blocks = [(0, 0, 0) \<mapsto> glass]\<rparr>"

text \<open>
  A stone at \<open>(1,1,1)\<close> in a grid of side 3, with a stone at each of its six neighbors.
\<close>

definition crossSchematic :: Schematic where
  "crossSchematic =
     \<lparr>width = 3, height = 3, lengthZ = 3, blockTypes = [stone],
      blocks = [(1, 1, 1) \<mapsto> stone, (1, 2, 1) \<mapsto> stone, (1, 0, 1) \<mapsto> stone,
                (1, 1, 0) \<mapsto> stone, (1, 1, 2) \<mapsto> stone, (2, 1, 1) \<mapsto> stone,
                (0, 1, 1) \<mapsto> stone]\<rparr>"

definition instanceOf :: "string \<Rightarrow> Mesh" where
  "instanceOf nm =
     \<lparr>name = nm, instanced = True, position = (Finite 0, Finite 0, Finite 0),
      worldMatrixFrozen = False\<rparr>"

definition exampleEnv :: "nat Env" where
  "exampleEnv =
     \<lparr>INVISIBLE_BLOCKS = {''air''},
      NON_OCCLUDING_BLOCKS = {''glass''},
      loadSchematic = (\<lambda>str. if str = ''pair'' then Some pairSchematic
                              else if str = ''barrier'' then Some barrierSchematic
                              else if str = ''glass'' then Some glassSchematic
                              else None),
      loadBlockStateDefinition = (\<lambda>t. Some t),
      getBlockModelData = (\<lambda>block blockState.
         \<lparr>models = (if type block = ''barrier'' then [] else [blockState])\<rparr>),
      getModelOption = (\<lambda>modelData loader. (concat (models modelData), loader)),
      getModel = (\<lambda>option block loader. (Some [Some (instanceOf option)], Suc loader)),
      clearCache = (\<lambda>loader. 0),
      getModelLoader = 0,
      addArrowToScene = (\<lambda>cameraOffset. []),
      addBarsToScene = (\<lambda>cameraOffset world. []),
      engineDispose = (\<lambda>sc. sc\<lparr>meshes := [], disposedMeshes := disposedMeshes sc @ meshes sc\<rparr>)\<rparr>"

definition exampleOptions :: SchematicRenderOptions where
  "exampleOptions =
     \<lparr>renderArrow = False, renderBars = False, disableAutoRender = False, sizeOption = None\<rparr>"

text \<open>
  The sessions of the example: after \<^verbatim>\<open>renderSchematic\<close> on the pair of stones, after a swap
  from there to the pane of glass, and after \<^verbatim>\<open>renderSchematic\<close> on the barrier.
\<close>

definition stoneData :: BlockModelData where
  "stoneData = \<lparr>models = [''stone'']\<rparr>"

definition glassData :: BlockModelData where
  "glassData = \<lparr>models = [''glass'']\<rparr>"

definition stoneAt :: "rat \<Rightarrow> Mesh" where
  "stoneAt px =
     \<lparr>name = ''stone'', instanced = True, position = (Finite px, Finite 0, Finite 0),
      worldMatrixFrozen = True\<rparr>"

definition glassPane :: Mesh where
  "glassPane =
     \<lparr>name = ''glass'', instanced = True, position = (Finite 0, Finite 0, Finite 0),
      worldMatrixFrozen = True\<rparr>"

definition pairSession :: "nat Session" where
  "pairSession =
     \<lparr>blockModelLookup = [''stone:{}'' \<mapsto> stoneData],
      scene = \<lparr>meshes = [groundAt (Finite (- 1 / 2)), stoneAt (- 1 / 2), stoneAt (1 / 2)],
                blockMaterialDirtyMechanism = False, materialsFrozen = True,
                disposedMeshes = [], framesRendered = 0\<rparr>,
      modelLoader = 2, hasDestroyed = False, engineDisposed = False,
      renderLoopStarted = True, engineSize = None, resolved = [stone]\<rparr>"

definition glassSession :: "nat Session" where
  "glassSession =
     \<lparr>blockModelLookup = [''stone:{}'' \<mapsto> stoneData, ''glass:{}'' \<mapsto> glassData],
      scene = \<lparr>meshes = [groundAt (Finite (- 1 / 2)), glassPane],
                blockMaterialDirtyMechanism = False, materialsFrozen = True,
                disposedMeshes = [stoneAt (- 1 / 2), stoneAt (1 / 2), groundAt (Finite (- 1 / 2))],
                framesRendered = 0\<rparr>,
      modelLoader = 1, hasDestroyed = False, engineDisposed = False,
      renderLoopStarted = True, engineSize = None, resolved = [stone, glass]\<rparr>"

definition barrierSession :: "nat Session" where
  "barrierSession =
     \<lparr>blockModelLookup = Map.empty,
      scene = \<lparr>meshes = [groundAt (Finite (- 1 / 2))],
                blockMaterialDirtyMechanism = False, materialsFrozen = True,
                disposedMeshes = [], framesRendered = 0\<rparr>,
      modelLoader = 0, hasDestroyed = False, engineDisposed = False,
      renderLoopStarted = True, engineSize = None, resolved = [barrier]\<rparr>"

text \<open>Two swaps issued at once, whose pieces then run in turn.\<close>

definition overlapping :: "Event list" where
  "overlapping = [Issue ''glass'', Issue ''pair'', Resume 0, Resume 1, Resume 0, Resume 0]"

section \<open>Auxiliary notions for the properties\<close>

text \<open>
  An entry of the lookup that stems from a resolution: the key of a block that is not
  invisible, with the model data computed from its state definition, which has models.
\<close>

definition resolvesTo :: "'l Env \<Rightarrow> string \<Rightarrow> BlockModelData \<Rightarrow> bool" where
  "resolvesTo env k d =
     (\<exists>b st. k = hashBlockForMap b \<and> type b \<notin> INVISIBLE_BLOCKS env
        \<and> loadBlockStateDefinition env (type b) = Some st \<and> d = getBlockModelData env b st
        \<and> models d \<noteq> [])"

text \<open>The resolution of a block gives model data with at least one model.\<close>

definition modelsFound :: "'l Env \<Rightarrow> Block \<Rightarrow> bool" where
  "modelsFound env b =
     (case loadBlockStateDefinition env (type b) of
        None \<Rightarrow> False
      | Some st \<Rightarrow> models (getBlockModelData env b st) \<noteq> [])"

text \<open>
  Among the recorded resolutions, those that gave models have pairwise different keys,
  and their keys are in the lookup.
\<close>

definition resolvedOnce :: "'l Env \<Rightarrow> (string \<rightharpoonup> BlockModelData) \<Rightarrow> Block list \<Rightarrow> bool" where
  "resolvedOnce env lk cs =
     (distinct (map hashBlockForMap (filter (modelsFound env) cs))
      \<and> (\<forall>b \<in> set cs. modelsFound env b \<longrightarrow> lk (hashBlockForMap b) \<noteq> None))"

text \<open>
  The session after the first statements of \<^verbatim>\<open>swapSchematic\<close>: after the instanced meshes
  are removed and the cache of the model loader is cleared, and after the ground mesh is
  replaced.
\<close>

definition swapStart :: "'l Env \<Rightarrow> 'l Session \<Rightarrow> 'l Session" where
  "swapStart env s = s\<lparr>scene := removeInstanced (scene s), modelLoader := clearCache env (modelLoader s)\<rparr>"

definition swapGround :: "'l Env \<Rightarrow> Schematic \<Rightarrow> Mesh \<Rightarrow> 'l Session \<Rightarrow> 'l Session" where
  "swapGround env ns groundMesh s =
     (swapStart env s)\<lparr>scene := addGrid (dispose groundMesh (removeInstanced (scene s)))
                                     (halfNumber (negateNumber (toNumber (height ns))))\<rparr>"

text \<open>
  What holds of the lookup and the record of resolutions in every session: a resolution
  that gave models is recorded once, and every entry of the lookup stems from a resolution.
\<close>

definition sessionInvariant :: "'l Env \<Rightarrow> 'l Session \<Rightarrow> bool" where
  "sessionInvariant env s =
     (resolvedOnce env (blockModelLookup s) (resolved s)
      \<and> (\<forall>k d. blockModelLookup s k = Some d \<longrightarrow> resolvesTo env k d))"

section \<open>Properties of numbers\<close>

lemma quotient_of_abs:
  assumes "r \<noteq> 0" and "quotient_of \<bar>r\<bar> = (p, q)"
  shows "0 < p" and "0 < q" and "\<bar>r\<bar> = of_int p / of_int q"
proof -
  from assms(2) show q: "0 < q" by (rule quotient_of_denom_pos)
  from assms(2) show eq: "\<bar>r\<bar> = of_int p / of_int q" by (rule quotient_of_div)
  from assms(1) have "0 < \<bar>r\<bar>" by simp
  with eq q show "0 < p" by (simp add: zero_less_divide_iff)
qed

lemma exponent_bounds:
  assumes "r \<noteq> 0"
  shows "2 powi exponent r \<le> \<bar>r\<bar>" and "\<bar>r\<bar> < 2 powi (exponent r + 1)"
proof -
  obtain p q where pq: "quotient_of \<bar>r\<bar> = (p, q)" by (cases "quotient_of \<bar>r\<bar>")
  note f = quotient_of_abs [OF assms pq]
  let ?d = "bitlen p - bitlen q"
  from bitlen_bounds [OF f(1)] have p: "2 ^ nat (bitlen p - 1) \<le> p" "p < 2 ^ nat (bitlen p)" by simp_all
  from bitlen_bounds [OF f(2)] have q: "2 ^ nat (bitlen q - 1) \<le> q" "q < 2 ^ nat (bitlen q)" by simp_all
  from f(1) have bp: "1 \<le> bitlen p" by (simp add: bitlen_def floorlog_def)
  from f(2) have bq: "1 \<le> bitlen q" by (simp add: bitlen_def floorlog_def)
  have P1: "(2::rat) powi (bitlen p - 1) \<le> of_int p"
  proof -
    from p(1) have "(of_int (2 ^ nat (bitlen p - 1)) :: rat) \<le> of_int p" by (simp only: of_int_le_iff)
    with bp show ?thesis by (simp add: power_int_def)
  qed
  have P2: "(of_int p :: rat) < 2 powi bitlen p"
  proof -
    from p(2) have "(of_int p :: rat) < of_int (2 ^ nat (bitlen p))" by (simp only: of_int_less_iff)
    with bp show ?thesis by (simp add: power_int_def)
  qed
  have Q1: "(2::rat) powi (bitlen q - 1) \<le> of_int q"
  proof -
    from q(1) have "(of_int (2 ^ nat (bitlen q - 1)) :: rat) \<le> of_int q" by (simp only: of_int_le_iff)
    with bq show ?thesis by (simp add: power_int_def)
  qed
  have Q2: "(of_int q :: rat) < 2 powi bitlen q"
  proof -
    from q(2) have "(of_int q :: rat) < of_int (2 ^ nat (bitlen q))" by (simp only: of_int_less_iff)
    with bq show ?thesis by (simp add: power_int_def)
  qed
  have qpos: "(0::rat) < of_int q" using f(2) by simp
  have ppos: "(0::rat) < of_int p" using f(1) by simp
  have low: "(2::rat) powi (?d - 1) < \<bar>r\<bar>"
  proof -
    have "(2::rat) powi (?d - 1) = 2 powi (bitlen p - 1) / 2 powi bitlen q"
      by (simp add: power_int_diff)
    also have "\<dots> \<le> of_int p / 2 powi bitlen q"
      using P1 by (simp add: divide_right_mono)
    also have "\<dots> < of_int p / of_int q"
      using Q2 qpos ppos by (simp add: divide_strict_left_mono)
    finally show ?thesis by (simp add: f(3))
  qed
  have high: "\<bar>r\<bar> < (2::rat) powi (?d + 1)"
  proof -
    have "\<bar>r\<bar> = of_int p / of_int q" by (rule f(3))
    also have "\<dots> < 2 powi bitlen p / of_int q"
      using P2 qpos by (simp add: divide_strict_right_mono)
    also have "\<dots> \<le> 2 powi bitlen p / 2 powi (bitlen q - 1)"
      using Q1 by (intro frac_le) (simp_all add: power_int_def)
    also have "\<dots> = 2 powi (?d + 1)"
      by (simp add: power_int_diff power_int_add)
    finally show ?thesis .
  qed
  show "2 powi exponent r \<le> \<bar>r\<bar>"
    using low by (simp add: exponent_def pq Let_def)
  show "\<bar>r\<bar> < 2 powi (exponent r + 1)"
    using high by (auto simp add: exponent_def pq Let_def not_le)
qed

lemma roundTiesToEven_of_int [simp]: "roundTiesToEven (of_int n) = n"
  by (simp add: roundTiesToEven_def)

lemma roundNumber_zero [simp]: "roundNumber 0 = Finite 0"
  by (simp add: roundNumber_def)

text \<open>A multiple of one half below \<open>2^52\<close> in magnitude is a double, and rounding leaves it.\<close>

lemma roundNumber_exact:
  assumes small: "\<bar>r\<bar> < 2 ^ 52" and half: "2 * r \<in> \<int>"
  shows "roundNumber r = Finite r"
proof (cases "r = 0")
  case True
  then show ?thesis by simp
next
  case nz: False
  from exponent_bounds(1) [OF nz] small have "(2::rat) powi exponent r < 2 powi 52"
    by simp
  then have e: "exponent r < 52"
    by (rule power_int_le_imp_less_exp [rotated]) simp_all
  define j where "j = max (exponent r - 52) (- 1074)"
  from e have j: "j \<le> - 1" "- 1074 \<le> j" by (simp_all add: j_def)
  have u: "ulp r = 2 powi j" by (simp add: ulp_def j_def)
  from half obtain k :: int where k: "2 * r = of_int k" by (auto elim: Ints_cases)
  have "r / ulp r = r * 2 powi (- j)"
    by (simp add: u power_int_minus field_simps)
  also have "\<dots> = (2 * r) * 2 powi (- j - 1)"
    by (simp add: power_int_diff)
  also have "\<dots> = of_int k * 2 ^ nat (- j - 1)"
    using j by (simp add: k power_int_def)
  also have "\<dots> = of_int (k * 2 ^ nat (- j - 1))" by simp
  finally have q: "r / ulp r = of_int (k * 2 ^ nat (- j - 1))" .
  have upos: "ulp r \<noteq> 0" by (simp add: u)
  have v: "of_int (roundTiesToEven (r / ulp r)) * ulp r = r"
    unfolding q roundTiesToEven_of_int unfolding q [symmetric] using upos by simp
  have "\<bar>r\<bar> < 2 ^ 1024"
  proof -
    have "(2::rat) ^ 52 \<le> 2 ^ 1024" by (rule power_increasing) simp_all
    with small show ?thesis by (rule less_le_trans)
  qed
  with nz show ?thesis
    by (simp add: roundNumber_def v Let_def not_le [symmetric])
qed

lemma roundNumber_half_int:
  assumes "\<bar>k\<bar> < 2 ^ 53"
  shows "roundNumber (of_int k / 2) = Finite (of_int k / 2)"
proof (rule roundNumber_exact)
  from assms have "(of_int \<bar>k\<bar> :: rat) < of_int (2 ^ 53)" by (simp only: of_int_less_iff)
  then show "\<bar>of_int k / 2 :: rat\<bar> < 2 ^ 52" by simp
  show "2 * (of_int k / 2 :: rat) \<in> \<int>" by simp
qed

lemma toNumber_exact:
  assumes "\<bar>n\<bar> < 2 ^ 52"
  shows "toNumber n = Finite (of_int n)"
proof -
  from assms have "\<bar>2 * n\<bar> < 2 ^ 53" by simp
  from roundNumber_half_int [OF this] show ?thesis by (simp add: toNumber_def)
qed

text \<open>
  For a coordinate inside a dimension below \<open>2^52\<close>, no step of the formula
  \<open>- dimension / 2 + 0.5 + coordinate\<close> rounds: computed on numbers, it has its exact value.
\<close>

lemma axisOffset_exact:
  assumes "0 \<le> c" and "c < d" and "d < 2 ^ 52"
  shows "axisOffset (toNumber d) c = Finite (offset d c)"
proof -
  from assms have d: "toNumber d = Finite (of_int d)" and c: "toNumber c = Finite (of_int c)"
    by (simp_all add: toNumber_exact)
  from assms have n: "negateNumber (Finite (of_int d)) = Finite (- of_int d)" by simp
  have h: "halfNumber (Finite (- of_int d)) = Finite (of_int (- d) / 2)"
  proof -
    have eq: "(- of_int d / 2 :: rat) = of_int (- d) / 2" by simp
    from assms have "\<bar>- d\<bar> < 2 ^ 53" by simp
    then have "roundNumber (of_int (- d) / 2) = Finite (of_int (- d) / 2)"
      by (rule roundNumber_half_int)
    then show ?thesis by (simp only: halfNumber.simps eq)
  qed
  have p: "plusNumber (Finite (of_int (- d) / 2)) (Finite (1 / 2)) = Finite (of_int (1 - d) / 2)"
  proof -
    have eq: "(of_int (- d) / 2 + 1 / 2 :: rat) = of_int (1 - d) / 2" by (simp add: field_simps)
    from assms have "\<bar>1 - d\<bar> < 2 ^ 53" by simp
    then have "roundNumber (of_int (1 - d) / 2) = Finite (of_int (1 - d) / 2)"
      by (rule roundNumber_half_int)
    then show ?thesis by (simp only: plusNumber.simps eq)
  qed
  have q: "plusNumber (Finite (of_int (1 - d) / 2)) (Finite (of_int c)) = Finite (offset d c)"
  proof -
    have eq: "(of_int (1 - d) / 2 + of_int c :: rat) = of_int (1 - d + 2 * c) / 2"
      by (simp add: field_simps)
    have val: "(of_int (1 - d + 2 * c) / 2 :: rat) = offset d c"
      by (simp add: offset_def field_simps)
    from assms have "\<bar>1 - d + 2 * c\<bar> < 2 ^ 53" by simp
    then have "roundNumber (of_int (1 - d + 2 * c) / 2) = Finite (of_int (1 - d + 2 * c) / 2)"
      by (rule roundNumber_half_int)
    then show ?thesis by (simp only: plusNumber.simps eq val)
  qed
  show ?thesis by (simp only: axisOffset_def d c n h p q)
qed

lemma offset_exact:
  assumes "0 \<le> c" and "c < d" and "d < 2 ^ 52"
  shows "plusNumber (Finite 0) (Finite (offset d c)) = Finite (offset d c)"
proof -
  have val: "offset d c = of_int (1 - d + 2 * c) / 2"
    by (simp add: offset_def field_simps)
  from assms have "\<bar>1 - d + 2 * c\<bar> < 2 ^ 53" by simp
  then have "roundNumber (of_int (1 - d + 2 * c) / 2) = Finite (of_int (1 - d + 2 * c) / 2)"
    by (rule roundNumber_half_int)
  then show ?thesis by (simp add: val)
qed

lemma exponent_unique:
  assumes "r \<noteq> 0" and low: "2 powi e \<le> \<bar>r\<bar>" and high: "\<bar>r\<bar> < 2 powi (e + 1)"
  shows "exponent r = e"
proof (rule antisym)
  from exponent_bounds(1) [OF assms(1)] high have lt: "(2::rat) powi exponent r < 2 powi (e + 1)"
    by (rule le_less_trans)
  have "exponent r < e + 1"
  proof (rule ccontr)
    assume "\<not> exponent r < e + 1"
    then have "(2::rat) powi (e + 1) \<le> 2 powi exponent r" by (intro power_int_increasing) simp_all
    with lt show False by simp
  qed
  then show "exponent r \<le> e" by simp
  from low exponent_bounds(2) [OF assms(1)] have lt: "(2::rat) powi e < 2 powi (exponent r + 1)"
    by (rule le_less_trans)
  have "e < exponent r + 1"
  proof (rule ccontr)
    assume "\<not> e < exponent r + 1"
    then have "(2::rat) powi (exponent r + 1) \<le> 2 powi e" by (intro power_int_increasing) simp_all
    with lt show False by simp
  qed
  then show "e \<le> exponent r" by simp
qed

lemma roundTiesToEven_near:
  assumes "\<bar>x - of_int n\<bar> < 1 / 2"
  shows "roundTiesToEven x = n"
proof (cases "of_int n \<le> x")
  case True
  with assms have "\<lfloor>x\<rfloor> = n" by (intro floor_unique) (auto simp: abs_less_iff)
  with assms True show ?thesis by (simp add: roundTiesToEven_def abs_less_iff)
next
  case False
  with assms have "\<lfloor>x\<rfloor> = n - 1" by (intro floor_unique) (auto simp: abs_less_iff)
  with assms False show ?thesis by (simp add: roundTiesToEven_def abs_less_iff)
qed

lemma roundTiesToEven_tie:
  assumes "x = of_int n + 1 / 2"
  shows "roundTiesToEven x = (if even n then n else n + 1)"
proof -
  from assms have "\<lfloor>x\<rfloor> = n" by (intro floor_unique) auto
  with assms show ?thesis by (simp add: roundTiesToEven_def)
qed

text \<open>
  Where the exact result is not a double it is rounded: the number written \<open>0.1\<close> is the
  double nearest to one tenth, and \<open>0.1 + (-0.5)\<close> is a tie between two doubles that goes to
  the even one, the double written \<open>-0.4\<close>, which is not the exact sum.
\<close>

lemma plusNumber_rounds:
  "roundNumber (1 / 10) = Finite (3602879701896397 / 2 ^ 55)
   \<and> roundNumber (- 4 / 10) = Finite (- 7205759403792794 / 2 ^ 54)
   \<and> plusNumber (Finite (3602879701896397 / 2 ^ 55)) (Finite (- 1 / 2))
       = Finite (- 7205759403792794 / 2 ^ 54)
   \<and> (3602879701896397 / 2 ^ 55 + (- 1 / 2) :: rat) \<noteq> - 7205759403792794 / 2 ^ 54"
proof -
  define q :: rat where "q = - 4 / 10"
  have e3: "exponent q = - 2"
    by (rule exponent_unique) (simp_all add: q_def power_int_def power_divide)
  have u3: "ulp q = 1 / 2 ^ 54"
    by (simp add: ulp_def e3 power_int_def power_divide)
  have t3: "roundTiesToEven (q / (1 / 2 ^ 54)) = - 7205759403792794"
    by (rule roundTiesToEven_near) (simp add: q_def)
  have "roundNumber q = Finite (- 7205759403792794 / 2 ^ 54)"
    unfolding roundNumber_def u3 Let_def t3 by (simp add: q_def)
  then have r3: "roundNumber (- 4 / 10) = Finite (- 7205759403792794 / 2 ^ 54)"
    by (simp only: q_def)
  have e1: "exponent (1 / 10) = - 4"
    by (rule exponent_unique) (simp_all add: power_int_def power_divide)
  have u1: "ulp (1 / 10) = 1 / 2 ^ 56"
    by (simp add: ulp_def e1 power_int_def power_divide)
  have t1: "roundTiesToEven (1 / 10 / (1 / 2 ^ 56)) = 7205759403792794"
    by (rule roundTiesToEven_near) simp
  have r1: "roundNumber (1 / 10) = Finite (3602879701896397 / 2 ^ 55)"
    unfolding roundNumber_def u1 Let_def t1 by simp
  define r :: rat where "r = 3602879701896397 / 2 ^ 55 + - 1 / 2"
  have nz: "r \<noteq> 0" by (simp add: r_def)
  have e2: "exponent r = - 2"
    by (rule exponent_unique) (simp_all add: r_def power_int_def power_divide)
  have u2: "ulp r = 1 / 2 ^ 54"
    by (simp add: ulp_def e2 power_int_def power_divide)
  have t2: "roundTiesToEven (r / (1 / 2 ^ 54)) = - 7205759403792794"
    using roundTiesToEven_tie [of "r / (1 / 2 ^ 54)" "- 7205759403792794"]
    by (simp add: r_def)
  have "roundNumber r = Finite (- 7205759403792794 / 2 ^ 54)"
    unfolding roundNumber_def u2 Let_def t2 using nz by (simp add: r_def)
  then have r2: "plusNumber (Finite (3602879701896397 / 2 ^ 55)) (Finite (- 1 / 2))
       = Finite (- 7205759403792794 / 2 ^ 54)"
    by (simp only: plusNumber.simps r_def)
  have "(3602879701896397 / 2 ^ 55 + (- 1 / 2) :: rat) \<noteq> - 7205759403792794 / 2 ^ 54"
    by simp
  with r1 r2 r3 show ?thesis by (intro conjI)
qed

section \<open>Properties of the lookup key\<close>

lemma same_keys_same_map_same_list:
  "map fst ps = map fst qs \<Longrightarrow> distinct (map fst ps) \<Longrightarrow> map_of ps = map_of qs \<Longrightarrow> ps = qs"
proof (induction ps arbitrary: qs)
  case Nil
  then show ?case by simp
next
  case (Cons p ps)
  then obtain q qs' where qs: "qs = q # qs'" by (cases qs) auto
  obtain k v where p: "p = (k, v)" by (cases p)
  obtain k' v' where q: "q = (k', v')" by (cases q)
  from Cons.prems(1) qs p q have k: "k' = k" and keys: "map fst ps = map fst qs'" by auto
  from Cons.prems(2) p have notin: "k \<notin> fst ` set ps" and dist: "distinct (map fst ps)" by auto
  from notin keys have notin': "k \<notin> fst ` set qs'" by (metis set_map)
  from Cons.prems(3) have pt: "map_of (p # ps) a = map_of qs a" for a by (rule fun_cong)
  from pt [of k] qs p q k have v: "v' = v" by simp
  have "map_of ps = map_of qs'"
  proof
    fix a
    show "map_of ps a = map_of qs' a"
    proof (cases "a = k")
      case True
      from notin notin' have "map_of ps k = None" and "map_of qs' k = None"
        by (simp_all add: map_of_eq_None_iff)
      with True show ?thesis by simp
    next
      case False
      with pt [of a] qs p q k show ?thesis by simp
    qed
  qed
  with Cons.IH [OF keys dist] have "ps = qs'" by simp
  with qs p q k v show ?case by simp
qed

text \<open>
  C1, as stated, fails: the key follows the enumeration order of the properties. The two
  stair blocks have the same type and the same mapping from property names to values, and
  different keys.
\<close>

theorem hashBlockForMap_order_counterexample:
  "type stairsFacingFirst = type stairsHalfFirst
   \<and> map_of (properties stairsFacingFirst) = map_of (properties stairsHalfFirst)
   \<and> hashBlockForMap stairsFacingFirst \<noteq> hashBlockForMap stairsHalfFirst"
proof -
  have "map_of (properties stairsFacingFirst) = map_of (properties stairsHalfFirst)"
    by (rule ext) (simp add: stairsFacingFirst_def stairsHalfFirst_def)
  moreover have "hashBlockForMap stairsFacingFirst \<noteq> hashBlockForMap stairsHalfFirst"
    by (simp add: stairsFacingFirst_def stairsHalfFirst_def hashBlockForMap_def
        JSON_stringify_def QuoteJSONString_def QuoteJSONChar_def)
  ultimately show ?thesis
    by (simp add: stairsFacingFirst_def stairsHalfFirst_def)
qed

text \<open>
  The key determines the block: the serialization can be read back from its end.
\<close>

lemma hexDigit_inj: "hexDigit a = hexDigit b \<Longrightarrow> a mod 16 = b mod 16"
proof -
  assume eq: "hexDigit a = hexDigit b"
  have d: "distinct ''0123456789abcdef''" by simp
  have la: "a mod 16 < length ''0123456789abcdef''" and lb: "b mod 16 < length ''0123456789abcdef''"
    by simp_all
  from eq have "''0123456789abcdef'' ! (a mod 16) = ''0123456789abcdef'' ! (b mod 16)"
    by (simp only: hexDigit_def)
  with d la lb show ?thesis by (simp only: nth_eq_iff_index_eq)
qed

lemma hexDigit_in: "hexDigit a \<in> set ''0123456789abcdef''"
  unfolding hexDigit_def by (rule nth_mem) simp

lemma hexDigit_not_special: "hexDigit a \<noteq> CHR 0x22" "hexDigit a \<noteq> CHR 0x5C"
  using hexDigit_in [of a] by auto

text \<open>The shapes of the code of a character.\<close>

lemma QuoteJSONChar_shape:
  "(QuoteJSONChar c = [c] \<and> c \<noteq> CHR 0x22 \<and> c \<noteq> CHR 0x5C)
   \<or> (\<exists>x. QuoteJSONChar c = [CHR 0x5C, x] \<and> x \<noteq> CHR ''u''
         \<and> (of_char c :: nat) =
             (if x = CHR ''b'' then 8 else if x = CHR ''t'' then 9 else if x = CHR ''n'' then 10
              else if x = CHR ''f'' then 12 else if x = CHR ''r'' then 13
              else if x = CHR 0x22 then 34 else 92))
   \<or> (QuoteJSONChar c = [CHR 0x5C, CHR ''u'', CHR ''0'', CHR ''0'',
                           hexDigit (of_char c div 16), hexDigit (of_char c)]
       \<and> (of_char c :: nat) < 32)"
  by (auto simp: QuoteJSONChar_def Let_def)

lemma control_char_inj:
  assumes "(of_char c :: nat) < 32" and "(of_char c' :: nat) < 32"
    and "hexDigit (of_char c div 16) = hexDigit (of_char c' div 16)"
    and "hexDigit (of_char c) = hexDigit (of_char c')"
  shows "c = c'"
proof -
  from assms(3) have "(of_char c :: nat) div 16 mod 16 = of_char c' div 16 mod 16"
    by (rule hexDigit_inj)
  moreover from assms(4) have "(of_char c :: nat) mod 16 = of_char c' mod 16"
    by (rule hexDigit_inj)
  moreover from assms(1,2) have "(of_char c :: nat) div 16 < 16" "(of_char c' :: nat) div 16 < 16"
    by simp_all
  ultimately have "(of_char c :: nat) div 16 = of_char c' div 16"
    and "(of_char c :: nat) mod 16 = of_char c' mod 16" by simp_all
  then have "(of_char c :: nat) = of_char c'" by (metis div_mult_mod_eq)
  then show ?thesis by simp
qed

lemma of_char_same: "(of_char c :: nat) = n \<Longrightarrow> of_char c' = n \<Longrightarrow> c = c'"
  by (metis of_char_eq_iff)

lemma QuoteJSONChar_inj:
  assumes "QuoteJSONChar c @ R = QuoteJSONChar c' @ R'"
  shows "c = c' \<and> R = R'"
  using QuoteJSONChar_shape [of c] QuoteJSONChar_shape [of c'] assms
  by (elim disjE conjE exE) (auto dest: control_char_inj of_char_same)


lemma QuoteJSONChar_nonempty: "QuoteJSONChar c \<noteq> []"
  using QuoteJSONChar_shape [of c] by auto

lemma escaped_quote:
  "concat (map QuoteJSONChar s) = U @ CHR 0x22 # W \<Longrightarrow> U \<noteq> [] \<and> last U = CHR 0x5C"
proof (induction s arbitrary: U W)
  case Nil
  then show ?case by simp
next
  case (Cons c s)
  let ?E = "concat (map QuoteJSONChar s)"
  from Cons.prems have eq: "QuoteJSONChar c @ ?E = U @ CHR 0x22 # W" by simp
  from QuoteJSONChar_shape [of c] show ?case
  proof (elim disjE conjE exE)
    assume "QuoteJSONChar c = [c]" "c \<noteq> CHR 0x22" "c \<noteq> CHR 0x5C"
    with eq obtain U' where "U = c # U'" "?E = U' @ CHR 0x22 # W"
      by (auto simp: Cons_eq_append_conv)
    with Cons.IH [of U' W] show ?thesis by simp
  next
    fix x assume "QuoteJSONChar c = [CHR 0x5C, x]"
    with eq have "U = [CHR 0x5C] \<or> (\<exists>U'. U = CHR 0x5C # x # U' \<and> ?E = U' @ CHR 0x22 # W)"
      by (auto simp: Cons_eq_append_conv)
    then show ?thesis
    proof
      assume "U = [CHR 0x5C]"
      then show ?thesis by simp
    next
      assume "\<exists>U'. U = CHR 0x5C # x # U' \<and> ?E = U' @ CHR 0x22 # W"
      then obtain U' where "U = CHR 0x5C # x # U'" "?E = U' @ CHR 0x22 # W" by blast
      with Cons.IH [of U' W] show ?thesis by simp
    qed
  next
    assume "QuoteJSONChar c = [CHR 0x5C, CHR ''u'', CHR ''0'', CHR ''0'',
                           hexDigit (of_char c div 16), hexDigit (of_char c)]"
    with eq obtain U' where
      "U = [CHR 0x5C, CHR ''u'', CHR ''0'', CHR ''0'', hexDigit (of_char c div 16), hexDigit (of_char c)] @ U'"
      "?E = U' @ CHR 0x22 # W"
      using hexDigit_not_special(1) [of "of_char c div 16"] hexDigit_not_special(1) [of "of_char c"]
      by (auto simp: Cons_eq_append_conv)
    with Cons.IH [of U' W] show ?thesis by simp
  qed
qed

lemma escaped_inj:
  "concat (map QuoteJSONChar s) = concat (map QuoteJSONChar t) \<Longrightarrow> s = t"
proof (induction s arbitrary: t)
  case Nil
  then show ?case by (cases t) (simp_all add: QuoteJSONChar_nonempty)
next
  case (Cons c s)
  show ?case
  proof (cases t)
    case Nil
    with Cons.prems show ?thesis by (simp add: QuoteJSONChar_nonempty)
  next
    case (Cons c' t')
    with Cons.prems have "QuoteJSONChar c @ concat (map QuoteJSONChar s)
        = QuoteJSONChar c' @ concat (map QuoteJSONChar t')" by simp
    then have "c = c'" and "concat (map QuoteJSONChar s) = concat (map QuoteJSONChar t')"
      by (auto dest: QuoteJSONChar_inj)
    with Cons.IH [of t'] Cons show ?thesis by simp
  qed
qed

text \<open>
  A quoted string at the end of a text is found from the end: when the text before it
  does not end in a backslash, the opening quotation mark is the last one that has no
  backslash before it.
\<close>

lemma quoted_suffix_length:
  assumes eq: "A @ CHR 0x22 # concat (map QuoteJSONChar s) = B @ CHR 0x22 # concat (map QuoteJSONChar t)"
    and A: "A \<noteq> [] \<Longrightarrow> last A \<noteq> CHR 0x5C"
    and le: "length B \<le> length A"
  shows "A = B"
proof -
  from eq le obtain us where A_eq: "A = B @ us"
    and rest: "us @ CHR 0x22 # concat (map QuoteJSONChar s) = CHR 0x22 # concat (map QuoteJSONChar t)"
    by (auto simp: append_eq_append_conv2)
  show ?thesis
  proof (cases us)
    case Nil
    with A_eq show ?thesis by simp
  next
    case (Cons u us')
    with rest have "concat (map QuoteJSONChar t) = us' @ CHR 0x22 # concat (map QuoteJSONChar s)"
      by simp
    from escaped_quote [OF this] have "us' \<noteq> []" and "last us' = CHR 0x5C" by simp_all
    with A_eq Cons have "A \<noteq> []" and "last A = CHR 0x5C" by simp_all
    with A show ?thesis by simp
  qed
qed

lemma quoted_suffix:
  assumes eq: "A @ QuoteJSONString s = B @ QuoteJSONString t"
    and A: "A \<noteq> [] \<Longrightarrow> last A \<noteq> CHR 0x5C"
    and B: "B \<noteq> [] \<Longrightarrow> last B \<noteq> CHR 0x5C"
  shows "A = B \<and> s = t"
proof -
  from eq have eq': "A @ CHR 0x22 # concat (map QuoteJSONChar s) = B @ CHR 0x22 # concat (map QuoteJSONChar t)"
    by (simp add: QuoteJSONString_def)
  have AB: "A = B"
  proof (cases "length B \<le> length A")
    case True
    with eq' A show ?thesis by (rule quoted_suffix_length)
  next
    case False
    then have "length A \<le> length B" by simp
    with eq' [symmetric] B have "B = A" by (rule quoted_suffix_length)
    then show ?thesis by simp
  qed
  with eq' have "concat (map QuoteJSONChar s) = concat (map QuoteJSONChar t)" by simp
  then have "s = t" by (rule escaped_inj)
  with AB show ?thesis by simp
qed

lemma joinComma_snoc:
  "joinComma (ms @ [m]) = (if ms = [] then m else joinComma ms @ '','' @ m)"
  by (induction ms rule: joinComma.induct) simp_all

lemma JSON_stringify_member:
  "JSON_stringify ps = ''{'' @ joinComma (map member ps) @ ''}''"
proof -
  have "(\<lambda>(k, v). QuoteJSONString k @ '':'' @ QuoteJSONString v) = member"
    by (auto simp: member_def fun_eq_iff)
  then show ?thesis by (simp only: JSON_stringify_def)
qed

lemma member_last: "last (member kv) = CHR 0x22" "member kv \<noteq> []"
  by (simp_all add: member_def [of kv] QuoteJSONString_def)

lemma members_last:
  "ps \<noteq> [] \<Longrightarrow> last (joinComma (map member ps)) = CHR 0x22"
  by (cases ps rule: rev_cases) (simp_all add: joinComma_snoc member_last)

lemma members_nonempty: "ps \<noteq> [] \<Longrightarrow> joinComma (map member ps) \<noteq> []"
  by (cases ps rule: rev_cases) (simp_all add: joinComma_snoc member_last)

lemma members_snoc:
  "T @ '':{'' @ joinComma (map member (ps @ [kv])) =
     ((T @ '':{'' @ (if ps = [] then [] else joinComma (map member ps) @ '','')) @
       QuoteJSONString (fst kv) @ '':'') @ QuoteJSONString (snd kv)"
  by (simp add: joinComma_snoc member_def [of kv])

lemma key_text_inj:
  "T1 @ '':{'' @ joinComma (map member ps1) = T2 @ '':{'' @ joinComma (map member ps2)
   \<Longrightarrow> T1 = T2 \<and> ps1 = ps2"
proof (induction ps1 arbitrary: ps2 rule: rev_induct)
  case Nil
  show ?case
  proof (cases "ps2 = []")
    case True
    with Nil show ?thesis by simp
  next
    case False
    from Nil have "last (T1 @ '':{'') = last (T2 @ '':{'' @ joinComma (map member ps2))" by simp
    with False members_last [OF False] members_nonempty [OF False] show ?thesis by simp
  qed
next
  case (snoc kv1 ps1)
  have ne1: "ps1 @ [kv1] \<noteq> []" by simp
  show ?case
  proof (cases ps2 rule: rev_cases)
    case Nil
    from snoc.prems Nil
    have "last (T1 @ '':{'' @ joinComma (map member (ps1 @ [kv1]))) = last (T2 @ '':{'')" by simp
    with members_last [OF ne1] members_nonempty [OF ne1] show ?thesis by simp
  next
    case (snoc ps2' kv2)
    let ?X1 = "T1 @ '':{'' @ (if ps1 = [] then [] else joinComma (map member ps1) @ '','')"
    let ?X2 = "T2 @ '':{'' @ (if ps2' = [] then [] else joinComma (map member ps2') @ '','')"
    from snoc.prems
    have eq: "(?X1 @ QuoteJSONString (fst kv1) @ '':'') @ QuoteJSONString (snd kv1)
            = (?X2 @ QuoteJSONString (fst kv2) @ '':'') @ QuoteJSONString (snd kv2)"
      unfolding snoc members_snoc .
    have "?X1 @ QuoteJSONString (fst kv1) @ '':'' = ?X2 @ QuoteJSONString (fst kv2) @ '':''
        \<and> snd kv1 = snd kv2"
      using eq by (rule quoted_suffix) simp_all
    then have v: "snd kv1 = snd kv2"
      and eq2: "?X1 @ QuoteJSONString (fst kv1) = ?X2 @ QuoteJSONString (fst kv2)"
      by simp_all
    have "?X1 = ?X2 \<and> fst kv1 = fst kv2"
      using eq2 by (rule quoted_suffix) simp_all
    then have k: "fst kv1 = fst kv2" and X: "?X1 = ?X2" by simp_all
    from k v have kv: "kv1 = kv2" by (simp add: prod_eq_iff)
    show ?thesis
    proof (cases "ps1 = []")
      case True
      show ?thesis
      proof (cases "ps2' = []")
        case True
        with X \<open>ps1 = []\<close> kv snoc show ?thesis by simp
      next
        case False
        with X True have "last (T1 @ '':{'') = last (T2 @ '':{'' @ joinComma (map member ps2') @ '','')"
          by simp
        then show ?thesis by simp
      qed
    next
      case False
      show ?thesis
      proof (cases "ps2' = []")
        case True
        with X False have "last (T1 @ '':{'' @ joinComma (map member ps1) @ '','') = last (T2 @ '':{'')"
          by simp
        then show ?thesis by simp
      next
        case ne2: False
        with X False have "T1 @ '':{'' @ joinComma (map member ps1) = T2 @ '':{'' @ joinComma (map member ps2')"
          by simp
        from snoc.IH [OF this] kv snoc show ?thesis by simp
      qed
    qed
  qed
qed

text \<open>Different blocks have different keys.\<close>

lemma hashBlockForMap_inj:
  assumes "hashBlockForMap b1 = hashBlockForMap b2"
  shows "b1 = b2"
proof -
  from assms have "type b1 @ '':{'' @ joinComma (map member (properties b1))
      = type b2 @ '':{'' @ joinComma (map member (properties b2))"
    by (simp add: hashBlockForMap_def JSON_stringify_member)
  then have "type b1 = type b2 \<and> properties b1 = properties b2" by (rule key_text_inj)
  then show ?thesis by simp
qed

text \<open>
  C1, amended: two blocks with the same type and the same mapping from property names to
  values have the same key exactly when their properties are also enumerated in the same
  order.
\<close>

theorem hashBlockForMap_same_order:
  assumes "type b1 = type b2"
    and "map_of (properties b1) = map_of (properties b2)"
    and "distinct (map fst (properties b1))"
  shows "hashBlockForMap b1 = hashBlockForMap b2
           \<longleftrightarrow> map fst (properties b1) = map fst (properties b2)"
proof
  assume "hashBlockForMap b1 = hashBlockForMap b2"
  then have "b1 = b2" by (rule hashBlockForMap_inj)
  then show "map fst (properties b1) = map fst (properties b2)" by simp
next
  assume "map fst (properties b1) = map fst (properties b2)"
  from this assms(3,2) have "properties b1 = properties b2"
    by (rule same_keys_same_map_same_list)
  with assms(1) show "hashBlockForMap b1 = hashBlockForMap b2"
    by (simp add: hashBlockForMap_def)
qed

theorem hashBlockForMap_same_order_witness:
  "type stairsFacingFirst = type stairsHalfFirst
   \<and> map_of (properties stairsFacingFirst) = map_of (properties stairsHalfFirst)
   \<and> distinct (map fst (properties stairsFacingFirst))
   \<and> (hashBlockForMap stairsFacingFirst = hashBlockForMap stairsHalfFirst)
       = (map fst (properties stairsFacingFirst) = map fst (properties stairsHalfFirst))"
proof -
  have t: "type stairsFacingFirst = type stairsHalfFirst"
    by (simp add: stairsFacingFirst_def stairsHalfFirst_def)
  have m: "map_of (properties stairsFacingFirst) = map_of (properties stairsHalfFirst)"
    by (rule ext) (simp add: stairsFacingFirst_def stairsHalfFirst_def)
  have d: "distinct (map fst (properties stairsFacingFirst))"
    by (simp add: stairsFacingFirst_def)
  from hashBlockForMap_same_order [OF t m d] t m d show ?thesis by simp
qed

section \<open>Properties of the resource loader\<close>

lemma scanBlob_firstDefining: "scanBlob zs nm None = firstDefining zs (assetPath nm)"
  by (induction zs) (auto simp: truthyBlob_def Let_def split: option.splits)

lemma getResourceBlob_first_archive:
  assumes "blobCache rl nm = None" and "zipLoaded rl = ZipArray zs"
  shows "fst (getResourceBlob nm rl) = map_option (ObjectURL (objectURLs rl)) (firstDefining zs (assetPath nm))"
  using assms by (simp add: getResourceBlob_def scanBlob_firstDefining Let_def split: option.splits)

text \<open>
  C5: \<^verbatim>\<open>getResourceBlob\<close> returns the entry of the first archive that defines the path, and
  \<^verbatim>\<open>getResourceString\<close> does not. The primary archive defines the path with empty content:
  the blob of that entry is returned, but the text comes from the overlay, and with an
  overlay that lacks the path the text is undefined. The test \<^verbatim>\<open>if (data)\<close> takes the empty
  string for a missing entry.
\<close>

theorem getResourceString_skips_empty_entry:
  "firstDefining [primaryArchive, overlayArchive] (assetPath ''blockstates/stone.json'') = Some ''''
   \<and> fst (getResourceBlob ''blockstates/stone.json''
            (getResourceLoader (ZipArray [primaryArchive, overlayArchive]))) = Some (ObjectURL 0 '''')
   \<and> fst (getResourceString ''blockstates/stone.json''
            (getResourceLoader (ZipArray [primaryArchive, overlayArchive]))) = Some ''{}''
   \<and> fst (getResourceString ''blockstates/stone.json''
            (getResourceLoader (ZipArray [primaryArchive, emptyArchive]))) = None"
  by (simp add: getResourceString_def getResourceBlob_def getResourceLoader_def primaryArchive_def
      overlayArchive_def emptyArchive_def assetPath_def truthyString_def truthyBlob_def Let_def)

section \<open>Properties of the population of the lookup\<close>

lemma updateLoop_skip:
  "type b \<in> INVISIBLE_BLOCKS env \<or> lk (hashBlockForMap b) \<noteq> None \<Longrightarrow>
   updateLoop env (b # bs) lk cs = updateLoop env bs lk cs"
  by auto

lemma updateLoop_rejected:
  "type b \<notin> INVISIBLE_BLOCKS env \<Longrightarrow> lk (hashBlockForMap b) = None \<Longrightarrow>
   loadBlockStateDefinition env (type b) = None \<Longrightarrow>
   updateLoop env (b # bs) lk cs = (Some FetchRejected, lk, cs @ [b])"
  by simp

lemma updateLoop_no_models:
  "type b \<notin> INVISIBLE_BLOCKS env \<Longrightarrow> lk (hashBlockForMap b) = None \<Longrightarrow>
   loadBlockStateDefinition env (type b) = Some st \<Longrightarrow>
   models (getBlockModelData env b st) = [] \<Longrightarrow>
   updateLoop env (b # bs) lk cs = updateLoop env bs lk (cs @ [b])"
  by simp

lemma updateLoop_insert:
  "type b \<notin> INVISIBLE_BLOCKS env \<Longrightarrow> lk (hashBlockForMap b) = None \<Longrightarrow>
   loadBlockStateDefinition env (type b) = Some st \<Longrightarrow>
   models (getBlockModelData env b st) \<noteq> [] \<Longrightarrow>
   updateLoop env (b # bs) lk cs =
     updateLoop env bs (lk(hashBlockForMap b \<mapsto> getBlockModelData env b st)) (cs @ [b])"
  by simp

lemma updateLoop_cases [case_names Nil Skip Rejected NoModels Insert]:
  assumes nil: "\<And>lk cs. P [] lk cs"
    and skip: "\<And>b bs lk cs.
      type b \<in> INVISIBLE_BLOCKS env \<or> lk (hashBlockForMap b) \<noteq> None \<Longrightarrow>
      P bs lk cs \<Longrightarrow> P (b # bs) lk cs"
    and rejected: "\<And>b bs lk cs.
      type b \<notin> INVISIBLE_BLOCKS env \<Longrightarrow> lk (hashBlockForMap b) = None \<Longrightarrow>
      loadBlockStateDefinition env (type b) = None \<Longrightarrow> P (b # bs) lk cs"
    and no_models: "\<And>b bs lk cs st.
      type b \<notin> INVISIBLE_BLOCKS env \<Longrightarrow> lk (hashBlockForMap b) = None \<Longrightarrow>
      loadBlockStateDefinition env (type b) = Some st \<Longrightarrow>
      models (getBlockModelData env b st) = [] \<Longrightarrow>
      P bs lk (cs @ [b]) \<Longrightarrow> P (b # bs) lk cs"
    and insert: "\<And>b bs lk cs st.
      type b \<notin> INVISIBLE_BLOCKS env \<Longrightarrow> lk (hashBlockForMap b) = None \<Longrightarrow>
      loadBlockStateDefinition env (type b) = Some st \<Longrightarrow>
      models (getBlockModelData env b st) \<noteq> [] \<Longrightarrow>
      P bs (lk(hashBlockForMap b \<mapsto> getBlockModelData env b st)) (cs @ [b]) \<Longrightarrow>
      P (b # bs) lk cs"
  shows "P bs lk cs"
proof (induction bs arbitrary: lk cs)
  case Nil
  show ?case by (rule nil)
next
  case (Cons b bs)
  show ?case
  proof (cases "type b \<in> INVISIBLE_BLOCKS env \<or> lk (hashBlockForMap b) \<noteq> None")
    case True
    then show ?thesis using Cons.IH by (rule skip)
  next
    case False
    then have visible: "type b \<notin> INVISIBLE_BLOCKS env" and absent: "lk (hashBlockForMap b) = None"
      by simp_all
    show ?thesis
    proof (cases "loadBlockStateDefinition env (type b)")
      case None
      with visible absent show ?thesis by (rule rejected)
    next
      case (Some st)
      show ?thesis
      proof (cases "models (getBlockModelData env b st) = []")
        case True
        with visible absent Some show ?thesis using Cons.IH by (rule no_models)
      next
        case False
        with visible absent Some show ?thesis using Cons.IH by (rule insert)
      qed
    qed
  qed
qed

lemma updateLoop_grows:
  "updateLoop env bs lk cs = (r, lk', cs') \<Longrightarrow> lk \<subseteq>\<^sub>m lk'"
proof (induction bs lk cs rule: updateLoop_cases [where env = env])
  case (Nil lk cs)
  then show ?case by simp
next
  case (Skip b bs lk cs)
  from Skip.prems have "updateLoop env bs lk cs = (r, lk', cs')"
    unfolding updateLoop_skip [where lk = lk, OF Skip.hyps] .
  then show ?case by (rule Skip.IH)
next
  case (Rejected b bs lk cs)
  from Rejected.prems show ?case
    unfolding updateLoop_rejected [where lk = lk, OF Rejected.hyps] by simp
next
  case (NoModels b bs lk cs st)
  from NoModels.prems have "updateLoop env bs lk (cs @ [b]) = (r, lk', cs')"
    unfolding updateLoop_no_models [where lk = lk, OF NoModels.hyps] .
  then show ?case by (rule NoModels.IH)
next
  case (Insert b bs lk cs st)
  from Insert.prems
  have "updateLoop env bs (lk(hashBlockForMap b \<mapsto> getBlockModelData env b st)) (cs @ [b]) = (r, lk', cs')"
    unfolding updateLoop_insert [where lk = lk, OF Insert.hyps] .
  then have "lk(hashBlockForMap b \<mapsto> getBlockModelData env b st) \<subseteq>\<^sub>m lk'"
    by (rule Insert.IH)
  moreover from Insert.hyps(2) have "lk \<subseteq>\<^sub>m lk(hashBlockForMap b \<mapsto> getBlockModelData env b st)"
    by (auto simp: map_le_def)
  ultimately show ?case by (rule map_le_trans [rotated])
qed

lemma updateLoop_calls:
  "updateLoop env bs lk cs = (r, lk', cs') \<Longrightarrow>
   \<exists>new. cs' = cs @ new \<and> (\<forall>b \<in> set new. lk (hashBlockForMap b) = None)"
proof (induction bs lk cs rule: updateLoop_cases [where env = env])
  case (Nil lk cs)
  then show ?case by simp
next
  case (Skip b bs lk cs)
  from Skip.prems have "updateLoop env bs lk cs = (r, lk', cs')"
    unfolding updateLoop_skip [where lk = lk, OF Skip.hyps] .
  then show ?case by (rule Skip.IH)
next
  case (Rejected b bs lk cs)
  from Rejected.prems have "cs' = cs @ [b]"
    unfolding updateLoop_rejected [where lk = lk, OF Rejected.hyps] by simp
  with Rejected.hyps(2) have "cs' = cs @ [b] \<and> (\<forall>c \<in> set [b]. lk (hashBlockForMap c) = None)"
    by simp
  then show ?case by blast
next
  case (NoModels b bs lk cs st)
  from NoModels.prems have "updateLoop env bs lk (cs @ [b]) = (r, lk', cs')"
    unfolding updateLoop_no_models [where lk = lk, OF NoModels.hyps] .
  from NoModels.IH [OF this]
  obtain new where "cs' = (cs @ [b]) @ new" and "\<forall>c \<in> set new. lk (hashBlockForMap c) = None"
    by blast
  with NoModels.hyps(2) have "cs' = cs @ (b # new) \<and> (\<forall>c \<in> set (b # new). lk (hashBlockForMap c) = None)"
    by simp
  then show ?case by blast
next
  case (Insert b bs lk cs st)
  from Insert.prems
  have "updateLoop env bs (lk(hashBlockForMap b \<mapsto> getBlockModelData env b st)) (cs @ [b]) = (r, lk', cs')"
    unfolding updateLoop_insert [where lk = lk, OF Insert.hyps] .
  from Insert.IH [OF this]
  obtain new where new: "cs' = (cs @ [b]) @ new"
    and abs: "\<forall>c \<in> set new. (lk(hashBlockForMap b \<mapsto> getBlockModelData env b st)) (hashBlockForMap c) = None"
    by blast
  have "\<forall>c \<in> set new. lk (hashBlockForMap c) = None"
  proof
    fix c assume "c \<in> set new"
    with abs have "(lk(hashBlockForMap b \<mapsto> getBlockModelData env b st)) (hashBlockForMap c) = None"
      by blast
    then show "lk (hashBlockForMap c) = None"
      by (cases "hashBlockForMap c = hashBlockForMap b") simp_all
  qed
  with new Insert.hyps(2) have "cs' = cs @ (b # new) \<and> (\<forall>c \<in> set (b # new). lk (hashBlockForMap c) = None)"
    by simp
  then show ?case by blast
qed

lemma updateLoop_entries:
  "updateLoop env bs lk cs = (r, lk', cs') \<Longrightarrow> lk' k = Some d \<Longrightarrow>
   lk k = Some d \<or> resolvesTo env k d"
proof (induction bs lk cs rule: updateLoop_cases [where env = env])
  case (Nil lk cs)
  then show ?case by simp
next
  case (Skip b bs lk cs)
  from Skip.prems(1) have "updateLoop env bs lk cs = (r, lk', cs')"
    unfolding updateLoop_skip [where lk = lk, OF Skip.hyps] .
  then show ?case using Skip.prems(2) by (rule Skip.IH)
next
  case (Rejected b bs lk cs)
  from Rejected.prems(1) have "lk' = lk"
    unfolding updateLoop_rejected [where lk = lk, OF Rejected.hyps] by simp
  with Rejected.prems(2) show ?case by simp
next
  case (NoModels b bs lk cs st)
  from NoModels.prems(1) have "updateLoop env bs lk (cs @ [b]) = (r, lk', cs')"
    unfolding updateLoop_no_models [where lk = lk, OF NoModels.hyps] .
  then show ?case using NoModels.prems(2) by (rule NoModels.IH)
next
  case (Insert b bs lk cs st)
  from Insert.prems(1)
  have "updateLoop env bs (lk(hashBlockForMap b \<mapsto> getBlockModelData env b st)) (cs @ [b]) = (r, lk', cs')"
    unfolding updateLoop_insert [where lk = lk, OF Insert.hyps] .
  from Insert.IH [OF this Insert.prems(2)]
  have disj: "(lk(hashBlockForMap b \<mapsto> getBlockModelData env b st)) k = Some d \<or> resolvesTo env k d" .
  show ?case
  proof (cases "k = hashBlockForMap b")
    case True
    from disj show ?thesis
    proof
      assume "(lk(hashBlockForMap b \<mapsto> getBlockModelData env b st)) k = Some d"
      with True have "d = getBlockModelData env b st" by simp
      with True Insert.hyps have "resolvesTo env k d" unfolding resolvesTo_def by blast
      then show ?thesis ..
    next
      assume "resolvesTo env k d"
      then show ?thesis ..
    qed
  next
    case False
    with disj show ?thesis by simp
  qed
qed

lemma resolvedOnce_snoc_not_found:
  assumes "resolvedOnce env lk cs" and "\<not> modelsFound env b"
  shows "resolvedOnce env lk (cs @ [b])"
  using assms by (simp add: resolvedOnce_def)

lemma resolvedOnce_snoc_found:
  assumes once: "resolvedOnce env lk cs" and absent: "lk (hashBlockForMap b) = None"
  shows "resolvedOnce env (lk(hashBlockForMap b \<mapsto> d)) (cs @ [b])"
proof -
  from once have dist: "distinct (map hashBlockForMap (filter (modelsFound env) cs))"
    and there: "\<forall>c \<in> set cs. modelsFound env c \<longrightarrow> lk (hashBlockForMap c) \<noteq> None"
    by (simp_all add: resolvedOnce_def)
  from there absent have fresh: "hashBlockForMap b \<notin> hashBlockForMap ` set (filter (modelsFound env) cs)"
    by auto
  from dist fresh have "distinct (map hashBlockForMap (filter (modelsFound env) (cs @ [b])))"
    by simp
  moreover from there
  have "\<forall>c \<in> set (cs @ [b]). modelsFound env c \<longrightarrow> (lk(hashBlockForMap b \<mapsto> d)) (hashBlockForMap c) \<noteq> None"
    by simp
  ultimately show ?thesis by (simp only: resolvedOnce_def) 
qed

lemma updateLoop_once:
  "updateLoop env bs lk cs = (r, lk', cs') \<Longrightarrow> resolvedOnce env lk cs \<Longrightarrow> resolvedOnce env lk' cs'"
proof (induction bs lk cs rule: updateLoop_cases [where env = env])
  case (Nil lk cs)
  then show ?case by simp
next
  case (Skip b bs lk cs)
  from Skip.prems(1) have "updateLoop env bs lk cs = (r, lk', cs')"
    unfolding updateLoop_skip [where lk = lk, OF Skip.hyps] .
  then show ?case using Skip.prems(2) by (rule Skip.IH)
next
  case (Rejected b bs lk cs)
  from Rejected.prems(1) have eq: "lk' = lk" "cs' = cs @ [b]"
    unfolding updateLoop_rejected [where lk = lk, OF Rejected.hyps] by simp_all
  from Rejected.hyps(3) have "\<not> modelsFound env b" by (simp add: modelsFound_def)
  with Rejected.prems(2) eq show ?case by (simp add: resolvedOnce_snoc_not_found)
next
  case (NoModels b bs lk cs st)
  from NoModels.prems(1) have run: "updateLoop env bs lk (cs @ [b]) = (r, lk', cs')"
    unfolding updateLoop_no_models [where lk = lk, OF NoModels.hyps] .
  from NoModels.hyps(3,4) have "\<not> modelsFound env b" by (simp add: modelsFound_def)
  with NoModels.prems(2) have "resolvedOnce env lk (cs @ [b])" by (rule resolvedOnce_snoc_not_found)
  with run show ?case by (rule NoModels.IH)
next
  case (Insert b bs lk cs st)
  from Insert.prems(1)
  have run: "updateLoop env bs (lk(hashBlockForMap b \<mapsto> getBlockModelData env b st)) (cs @ [b]) = (r, lk', cs')"
    unfolding updateLoop_insert [where lk = lk, OF Insert.hyps] .
  from Insert.prems(2) Insert.hyps(2)
  have "resolvedOnce env (lk(hashBlockForMap b \<mapsto> getBlockModelData env b st)) (cs @ [b])"
    by (rule resolvedOnce_snoc_found)
  with run show ?case by (rule Insert.IH)
qed

lemma updateLoop_append:
  "updateLoop env bs lk (cs0 @ cs) =
     (case updateLoop env bs lk cs of (r, lk', cs') \<Rightarrow> (r, lk', cs0 @ cs'))"
proof (induction bs lk cs rule: updateLoop_cases [where env = env])
  case (Nil lk cs)
  show ?case by simp
next
  case (Skip b bs lk cs)
  show ?case
    unfolding updateLoop_skip [where lk = lk, OF Skip.hyps] by (rule Skip.IH)
next
  case (Rejected b bs lk cs)
  show ?case
    unfolding updateLoop_rejected [where lk = lk, OF Rejected.hyps] by simp
next
  case (NoModels b bs lk cs st)
  from NoModels.IH show ?case
    unfolding updateLoop_no_models [where lk = lk, OF NoModels.hyps] by simp
next
  case (Insert b bs lk cs st)
  from Insert.IH
  have "updateLoop env bs (lk(hashBlockForMap b \<mapsto> getBlockModelData env b st)) ((cs0 @ cs) @ [b]) =
    (case updateLoop env bs (lk(hashBlockForMap b \<mapsto> getBlockModelData env b st)) (cs @ [b]) of
       (r, lk', cs') \<Rightarrow> (r, lk', cs0 @ cs'))"
    by (simp only: append_assoc)
  then show ?case
    unfolding updateLoop_insert [where lk = lk, OF Insert.hyps] .
qed

lemma updateLoop_from_empty:
  "updateLoop env bs lk [] = (r, lk', new) \<Longrightarrow> updateLoop env bs lk cs = (r, lk', cs @ new)"
  using updateLoop_append [of env bs lk cs "[]"] by simp

lemma updateLoop_fault:
  "updateLoop env bs lk cs = (Some f, lk', cs') \<Longrightarrow> f = FetchRejected"
proof (induction bs lk cs rule: updateLoop_cases [where env = env])
  case (Nil lk cs)
  then show ?case by simp
next
  case (Skip b bs lk cs)
  from Skip.prems have "updateLoop env bs lk cs = (Some f, lk', cs')"
    unfolding updateLoop_skip [where lk = lk, OF Skip.hyps] .
  then show ?case by (rule Skip.IH)
next
  case (Rejected b bs lk cs)
  from Rejected.prems show ?case
    unfolding updateLoop_rejected [where lk = lk, OF Rejected.hyps] by simp
next
  case (NoModels b bs lk cs st)
  from NoModels.prems have "updateLoop env bs lk (cs @ [b]) = (Some f, lk', cs')"
    unfolding updateLoop_no_models [where lk = lk, OF NoModels.hyps] .
  then show ?case by (rule NoModels.IH)
next
  case (Insert b bs lk cs st)
  from Insert.prems
  have "updateLoop env bs (lk(hashBlockForMap b \<mapsto> getBlockModelData env b st)) (cs @ [b]) = (Some f, lk', cs')"
    unfolding updateLoop_insert [where lk = lk, OF Insert.hyps] .
  then show ?case by (rule Insert.IH)
qed

text \<open>The lookup after a Load that is not rejected is the one the specification describes.\<close>

lemma find_key:
  "find (\<lambda>b. hashBlockForMap b = k) bs = Some b \<Longrightarrow> hashBlockForMap b = k"
  by (auto simp: find_Some_iff)

lemma loaded_Nil: "loaded env lk [] = lk"
proof
  fix k show "loaded env lk [] k = lk k" by (cases "lk k") (simp_all add: loaded_def)
qed

lemma loaded_skip:
  assumes "resolution env b = None \<or> lk (hashBlockForMap b) \<noteq> None"
  shows "loaded env lk (b # bs) = loaded env lk bs"
proof
  fix k
  show "loaded env lk (b # bs) k = loaded env lk bs k"
  proof (cases "lk k")
    case (Some d)
    then show ?thesis by (simp add: loaded_def)
  next
    case None
    show ?thesis
    proof (cases "hashBlockForMap b = k")
      case False
      with None show ?thesis by (simp add: loaded_def)
    next
      case True
      with None assms have unresolved: "resolution env b = None" by auto
      have "(case find (\<lambda>b. hashBlockForMap b = k) bs of None \<Rightarrow> None | Some b \<Rightarrow> resolution env b) = None"
      proof (cases "find (\<lambda>b. hashBlockForMap b = k) bs")
        case None
        then show ?thesis by simp
      next
        case (Some b')
        from find_key [OF Some] True have "b' = b" by (simp add: hashBlockForMap_inj)
        with unresolved have "resolution env b' = None" by (simp only:)
        with Some show ?thesis by simp
      qed
      with None True unresolved show ?thesis by (simp add: loaded_def)
    qed
  qed
qed

lemma loaded_insert:
  assumes "lk (hashBlockForMap b) = None" and "resolution env b = Some d"
  shows "loaded env (lk(hashBlockForMap b \<mapsto> d)) bs = loaded env lk (b # bs)"
proof
  fix k
  show "loaded env (lk(hashBlockForMap b \<mapsto> d)) bs k = loaded env lk (b # bs) k"
  proof (cases "hashBlockForMap b = k")
    case True
    with assms show ?thesis by (auto simp add: loaded_def)
  next
    case False
    then show ?thesis by (cases "lk k") (simp_all add: loaded_def)
  qed
qed

lemma updateLoop_loaded:
  "updateLoop env bs lk cs = (None, lk', cs') \<Longrightarrow> lk' = loaded env lk bs"
proof (induction bs lk cs rule: updateLoop_cases [where env = env])
  case (Nil lk cs)
  then have "lk' = lk" by simp
  then show ?case by (simp only: loaded_Nil)
next
  case (Skip b bs lk cs)
  from Skip.prems have "updateLoop env bs lk cs = (None, lk', cs')"
    unfolding updateLoop_skip [where lk = lk, OF Skip.hyps] .
  then have "lk' = loaded env lk bs" by (rule Skip.IH)
  moreover from Skip.hyps have "resolution env b = None \<or> lk (hashBlockForMap b) \<noteq> None"
    by (auto simp: resolution_def)
  then have "loaded env lk (b # bs) = loaded env lk bs" by (rule loaded_skip)
  ultimately show ?case by (simp only:)
next
  case (Rejected b bs lk cs)
  from Rejected.prems show ?case
    unfolding updateLoop_rejected [where lk = lk, OF Rejected.hyps] by simp
next
  case (NoModels b bs lk cs st)
  from NoModels.prems have "updateLoop env bs lk (cs @ [b]) = (None, lk', cs')"
    unfolding updateLoop_no_models [where lk = lk, OF NoModels.hyps] .
  then have "lk' = loaded env lk bs" by (rule NoModels.IH)
  moreover from NoModels.hyps have "resolution env b = None \<or> lk (hashBlockForMap b) \<noteq> None"
    by (simp add: resolution_def)
  then have "loaded env lk (b # bs) = loaded env lk bs" by (rule loaded_skip)
  ultimately show ?case by (simp only:)
next
  case (Insert b bs lk cs st)
  from Insert.prems
  have "updateLoop env bs (lk(hashBlockForMap b \<mapsto> getBlockModelData env b st)) (cs @ [b]) = (None, lk', cs')"
    unfolding updateLoop_insert [where lk = lk, OF Insert.hyps] .
  then have "lk' = loaded env (lk(hashBlockForMap b \<mapsto> getBlockModelData env b st)) bs"
    by (rule Insert.IH)
  moreover from Insert.hyps have "resolution env b = Some (getBlockModelData env b st)"
    by (simp add: resolution_def)
  with Insert.hyps(2)
  have "loaded env (lk(hashBlockForMap b \<mapsto> getBlockModelData env b st)) bs = loaded env lk (b # bs)"
    by (rule loaded_insert)
  ultimately show ?case by (simp only:)
qed

text \<open>
  A block type whose model data has no models, and whose key is not in the lookup, is
  resolved by every Load that is not rejected and in whose structure it occurs.
\<close>

lemma updateLoop_resolves_again:
  assumes absent: "lk (hashBlockForMap b) = None"
    and inside: "b \<in> set bs"
    and run: "updateLoop env bs lk cs = (None, lk', cs')"
    and visible: "type b \<notin> INVISIBLE_BLOCKS env"
    and st: "loadBlockStateDefinition env (type b) = Some st"
    and empty: "models (getBlockModelData env b st) = []"
  shows "\<exists>new. cs' = cs @ new \<and> b \<in> set new"
  using absent inside run
proof (induction bs lk cs rule: updateLoop_cases [where env = env])
  case (Nil lk cs)
  then show ?case by simp
next
  case (Skip b0 bs lk cs)
  from Skip.hyps Skip.prems(1) visible have "b0 \<noteq> b" by auto
  with Skip.prems(2) have inside': "b \<in> set bs" by simp
  from Skip.prems(3) have "updateLoop env bs lk cs = (None, lk', cs')"
    unfolding updateLoop_skip [where lk = lk, OF Skip.hyps] .
  with Skip.prems(1) inside' show ?case by (rule Skip.IH)
next
  case (Rejected b0 bs lk cs)
  from Rejected.prems(3) show ?case
    unfolding updateLoop_rejected [where lk = lk, OF Rejected.hyps] by simp
next
  case (NoModels b0 bs lk cs st0)
  from NoModels.prems(3) have rest: "updateLoop env bs lk (cs @ [b0]) = (None, lk', cs')"
    unfolding updateLoop_no_models [where lk = lk, OF NoModels.hyps] .
  show ?case
  proof (cases "b0 = b")
    case True
    from updateLoop_calls [OF rest] obtain new where "cs' = (cs @ [b0]) @ new" by blast
    with True have "cs' = cs @ (b # new) \<and> b \<in> set (b # new)" by simp
    then show ?thesis by blast
  next
    case False
    with NoModels.prems(2) have "b \<in> set bs" by simp
    with NoModels.prems(1) have "\<exists>new. cs' = (cs @ [b0]) @ new \<and> b \<in> set new"
      using rest by (rule NoModels.IH)
    then obtain new where "cs' = (cs @ [b0]) @ new" and "b \<in> set new" by blast
    then have "cs' = cs @ (b0 # new) \<and> b \<in> set (b0 # new)" by simp
    then show ?thesis by blast
  qed
next
  case (Insert b0 bs lk cs st0)
  from Insert.hyps st empty have differ: "b0 \<noteq> b" by auto
  with Insert.prems(2) have inside': "b \<in> set bs" by simp
  from differ have "hashBlockForMap b0 \<noteq> hashBlockForMap b" by (auto dest: hashBlockForMap_inj)
  with Insert.prems(1)
  have absent': "(lk(hashBlockForMap b0 \<mapsto> getBlockModelData env b0 st0)) (hashBlockForMap b) = None"
    by simp
  from Insert.prems(3)
  have rest: "updateLoop env bs (lk(hashBlockForMap b0 \<mapsto> getBlockModelData env b0 st0)) (cs @ [b0])
      = (None, lk', cs')"
    unfolding updateLoop_insert [where lk = lk, OF Insert.hyps] .
  from absent' inside' rest have "\<exists>new. cs' = (cs @ [b0]) @ new \<and> b \<in> set new"
    by (rule Insert.IH)
  then obtain new where "cs' = (cs @ [b0]) @ new" and "b \<in> set new" by blast
  then have "cs' = cs @ (b0 # new) \<and> b \<in> set (b0 # new)" by simp
  then show ?case by blast
qed

section \<open>The outcomes of swapSchematic\<close>

lemma swapSchematic_parse_failed:
  assumes "loadSchematic env str = None"
  shows "swapSchematic env str s = (Some ParseFailed, swapStart env s)"
  using assms by (simp add: swapSchematic_def swapStart_def)

lemma swapSchematic_no_ground:
  assumes "loadSchematic env str = Some ns"
    and "find (\<lambda>mesh. name mesh = ''ground'') (meshes (removeInstanced (scene s))) = None"
  shows "swapSchematic env str s = (Some TypeError, swapStart env s)"
  using assms by (simp add: swapSchematic_def swapStart_def)

lemma swapSchematic_load_failed:
  assumes "loadSchematic env str = Some ns"
    and "find (\<lambda>mesh. name mesh = ''ground'') (meshes (removeInstanced (scene s))) = Some g"
    and "updateBlockModelLookup env (blockModelLookup s) ns = (Some f, lk, new)"
  shows "swapSchematic env str s =
     (Some f, (swapGround env ns g s)\<lparr>blockModelLookup := lk, resolved := resolved s @ new\<rparr>)"
  using assms by (simp add: swapSchematic_def swapStart_def swapGround_def)

lemma swapSchematic_assemble_failed:
  assumes "loadSchematic env str = Some ns"
    and "find (\<lambda>mesh. name mesh = ''ground'') (meshes (removeInstanced (scene s))) = Some g"
    and "updateBlockModelLookup env (blockModelLookup s) ns = (None, lk, new)"
    and "computeSchematicMesh env ns lk
           (addGrid (dispose g (removeInstanced (scene s))) (halfNumber (negateNumber (toNumber (height ns)))),
            clearCache env (modelLoader s)) (worldOf ns) = (Some f, sc, loader)"
  shows "swapSchematic env str s =
     (Some f, (swapGround env ns g s)\<lparr>blockModelLookup := lk, resolved := resolved s @ new,
                scene := sc, modelLoader := loader\<rparr>)"
  using assms by (simp add: swapSchematic_def swapStart_def swapGround_def)

lemma swapSchematic_done:
  assumes "loadSchematic env str = Some ns"
    and "find (\<lambda>mesh. name mesh = ''ground'') (meshes (removeInstanced (scene s))) = Some g"
    and "updateBlockModelLookup env (blockModelLookup s) ns = (None, lk, new)"
    and "computeSchematicMesh env ns lk
           (addGrid (dispose g (removeInstanced (scene s))) (halfNumber (negateNumber (toNumber (height ns)))),
            clearCache env (modelLoader s)) (worldOf ns) = (None, sc, loader)"
  shows "swapSchematic env str s =
     (None, (swapGround env ns g s)\<lparr>blockModelLookup := lk, resolved := resolved s @ new,
                scene := sc\<lparr>materialsFrozen := True\<rparr>, modelLoader := loader,
                renderLoopStarted := True\<rparr>)"
  using assms by (simp add: swapSchematic_def swapStart_def swapGround_def)

lemma swapSchematic_outcomes [consumes 1, case_names ParseFailed NoGround LoadFailed AssembleFailed Done]:
  assumes run: "swapSchematic env str s = (r, s')"
  obtains
    (ParseFailed) "loadSchematic env str = None" "r = Some ParseFailed" "s' = swapStart env s"
  | (NoGround) ns where "loadSchematic env str = Some ns"
      "find (\<lambda>mesh. name mesh = ''ground'') (meshes (removeInstanced (scene s))) = None"
      "r = Some TypeError" "s' = swapStart env s"
  | (LoadFailed) ns g f lk new where "loadSchematic env str = Some ns"
      "find (\<lambda>mesh. name mesh = ''ground'') (meshes (removeInstanced (scene s))) = Some g"
      "updateBlockModelLookup env (blockModelLookup s) ns = (Some f, lk, new)"
      "r = Some f"
      "s' = (swapGround env ns g s)\<lparr>blockModelLookup := lk, resolved := resolved s @ new\<rparr>"
  | (AssembleFailed) ns g f lk new sc loader where "loadSchematic env str = Some ns"
      "find (\<lambda>mesh. name mesh = ''ground'') (meshes (removeInstanced (scene s))) = Some g"
      "updateBlockModelLookup env (blockModelLookup s) ns = (None, lk, new)"
      "computeSchematicMesh env ns lk
           (addGrid (dispose g (removeInstanced (scene s))) (halfNumber (negateNumber (toNumber (height ns)))),
            clearCache env (modelLoader s)) (worldOf ns) = (Some f, sc, loader)"
      "r = Some f"
      "s' = (swapGround env ns g s)\<lparr>blockModelLookup := lk, resolved := resolved s @ new,
                scene := sc, modelLoader := loader\<rparr>"
  | (Done) ns g lk new sc loader where "loadSchematic env str = Some ns"
      "find (\<lambda>mesh. name mesh = ''ground'') (meshes (removeInstanced (scene s))) = Some g"
      "updateBlockModelLookup env (blockModelLookup s) ns = (None, lk, new)"
      "computeSchematicMesh env ns lk
           (addGrid (dispose g (removeInstanced (scene s))) (halfNumber (negateNumber (toNumber (height ns)))),
            clearCache env (modelLoader s)) (worldOf ns) = (None, sc, loader)"
      "r = None"
      "s' = (swapGround env ns g s)\<lparr>blockModelLookup := lk, resolved := resolved s @ new,
                scene := sc\<lparr>materialsFrozen := True\<rparr>, modelLoader := loader,
                renderLoopStarted := True\<rparr>"
proof (cases "loadSchematic env str")
  case None
  from run have "r = Some ParseFailed" "s' = swapStart env s"
    unfolding swapSchematic_parse_failed [OF None] by simp_all
  with None show ?thesis by (rule ParseFailed)
next
  case (Some ns)
  show ?thesis
  proof (cases "find (\<lambda>mesh. name mesh = ''ground'') (meshes (removeInstanced (scene s)))")
    case None
    from run have "r = Some TypeError" "s' = swapStart env s"
      unfolding swapSchematic_no_ground [OF Some None] by simp_all
    with Some None show ?thesis by (rule NoGround)
  next
    case ground: (Some g)
    obtain r1 lk new where load: "updateBlockModelLookup env (blockModelLookup s) ns = (r1, lk, new)"
      by (cases "updateBlockModelLookup env (blockModelLookup s) ns") 
    show ?thesis
    proof (cases r1)
      case failed: (Some f)
      from run have "r = Some f"
        "s' = (swapGround env ns g s)\<lparr>blockModelLookup := lk, resolved := resolved s @ new\<rparr>"
        unfolding swapSchematic_load_failed [OF Some ground load [unfolded failed]] by simp_all
      with Some ground load [unfolded failed] show ?thesis by (rule LoadFailed)
    next
      case None
      note load = load [unfolded None]
      obtain r2 sc loader where asm: "computeSchematicMesh env ns lk
           (addGrid (dispose g (removeInstanced (scene s))) (halfNumber (negateNumber (toNumber (height ns)))),
            clearCache env (modelLoader s)) (worldOf ns) = (r2, sc, loader)"
        by (cases "computeSchematicMesh env ns lk
           (addGrid (dispose g (removeInstanced (scene s))) (halfNumber (negateNumber (toNumber (height ns)))),
            clearCache env (modelLoader s)) (worldOf ns)") 
      show ?thesis
      proof (cases r2)
        case failed: (Some f)
        from run have "r = Some f"
          "s' = (swapGround env ns g s)\<lparr>blockModelLookup := lk, resolved := resolved s @ new,
                scene := sc, modelLoader := loader\<rparr>"
          unfolding swapSchematic_assemble_failed [OF Some ground load asm [unfolded failed]] by simp_all
        with Some ground load asm [unfolded failed] show ?thesis by (rule AssembleFailed)
      next
        case None
        from run have "r = None"
          "s' = (swapGround env ns g s)\<lparr>blockModelLookup := lk, resolved := resolved s @ new,
                scene := sc\<lparr>materialsFrozen := True\<rparr>, modelLoader := loader,
                renderLoopStarted := True\<rparr>"
          unfolding swapSchematic_done [OF Some ground load asm [unfolded None]] by simp_all
        with Some ground load asm [unfolded None] show ?thesis by (rule Done)
      qed
    qed
  qed
qed

lemma swapStart_fields [simp]:
  "blockModelLookup (swapStart env s) = blockModelLookup s"
  "resolved (swapStart env s) = resolved s"
  "hasDestroyed (swapStart env s) = hasDestroyed s"
  by (simp_all add: swapStart_def)

lemma swapGround_fields [simp]:
  "blockModelLookup (swapGround env ns g s) = blockModelLookup s"
  "resolved (swapGround env ns g s) = resolved s"
  "hasDestroyed (swapGround env ns g s) = hasDestroyed s"
  by (simp_all add: swapGround_def)

lemma swapSchematic_lookup:
  assumes "swapSchematic env str s = (r, s')"
  shows "(blockModelLookup s' = blockModelLookup s \<and> resolved s' = resolved s)
       \<or> (\<exists>ns r'. loadSchematic env str = Some ns
             \<and> updateLoop env (blockTypes ns) (blockModelLookup s) (resolved s)
                 = (r', blockModelLookup s', resolved s'))"
  using assms
proof (cases rule: swapSchematic_outcomes)
  case ParseFailed
  then show ?thesis by simp
next
  case (NoGround ns)
  then show ?thesis by simp
next
  case (LoadFailed ns g f lk new)
  from LoadFailed(3) have "updateLoop env (blockTypes ns) (blockModelLookup s) (resolved s) = (Some f, lk, resolved s @ new)"
    unfolding updateBlockModelLookup_def by (rule updateLoop_from_empty)
  with LoadFailed(1,5) show ?thesis by simp
next
  case (AssembleFailed ns g f lk new sc loader)
  from AssembleFailed(3) have "updateLoop env (blockTypes ns) (blockModelLookup s) (resolved s) = (None, lk, resolved s @ new)"
    unfolding updateBlockModelLookup_def by (rule updateLoop_from_empty)
  with AssembleFailed(1,6) show ?thesis by simp
next
  case (Done ns g lk new sc loader)
  from Done(3) have "updateLoop env (blockTypes ns) (blockModelLookup s) (resolved s) = (None, lk, resolved s @ new)"
    unfolding updateBlockModelLookup_def by (rule updateLoop_from_empty)
  with Done(1,6) show ?thesis by simp
qed

lemma swapSchematic_hasDestroyed:
  assumes "swapSchematic env str s = (r, s')"
  shows "hasDestroyed s' = hasDestroyed s"
  using assms by (cases rule: swapSchematic_outcomes) simp_all

lemma handle_lookup:
  assumes "handle env c s = (r, s')"
  shows "(blockModelLookup s' = blockModelLookup s \<and> resolved s' = resolved s)
       \<or> (\<exists>bs r'. updateLoop env bs (blockModelLookup s) (resolved s)
                 = (r', blockModelLookup s', resolved s'))"
proof (cases c)
  case (SwapSchematic str)
  with assms have "swapSchematic env str s = (r, s')" by simp
  from swapSchematic_lookup [OF this] show ?thesis by blast
qed (use assms in \<open>auto simp: resize_def setSize_def destroy_def render_def\<close>)

lemma handle_hasDestroyed:
  assumes "handle env c s = (r, s')" and "hasDestroyed s"
  shows "hasDestroyed s'"
proof (cases c)
  case (SwapSchematic str)
  with assms have "swapSchematic env str s = (r, s')" by simp
  from swapSchematic_hasDestroyed [OF this] assms(2) show ?thesis by simp
qed (use assms in \<open>auto simp: resize_def setSize_def destroy_def render_def\<close>)

lemma calls_hasDestroyed: "hasDestroyed s \<Longrightarrow> hasDestroyed (calls env cs s)"
proof (induction cs arbitrary: s)
  case Nil
  then show ?case by simp
next
  case (Cons c cs)
  obtain r s1 where h: "handle env c s = (r, s1)" by (cases "handle env c s")
  from handle_hasDestroyed [OF h Cons.prems] have "hasDestroyed s1" .
  then have "hasDestroyed (calls env cs s1)" by (rule Cons.IH)
  with h show ?case by simp
qed

section \<open>Properties of the session\<close>

lemma renderSchematic_session:
  assumes run: "renderSchematic env str opts = Inr s0"
  obtains ns sc loader where "loadSchematic env str = Some ns"
    "updateBlockModelLookup env Map.empty ns = (None, blockModelLookup s0, resolved s0)"
    "computeSchematicMesh env ns (blockModelLookup s0)
       (addGrid newScene (halfNumber (negateNumber (fst (snd (worldOf ns))))), getModelLoader env) (worldOf ns)
       = (None, sc, loader)"
    "\<not> hasDestroyed s0"
proof (cases "loadSchematic env str")
  case None
  with run show ?thesis by (simp add: renderSchematic_def)
next
  case (Some ns)
  obtain r1 lk new where load: "updateBlockModelLookup env Map.empty ns = (r1, lk, new)"
    by (cases "updateBlockModelLookup env Map.empty ns")
  show ?thesis
  proof (cases r1)
    case failed: (Some f)
    with run Some load show ?thesis by (simp add: renderSchematic_def Let_def)
  next
    case None
    note load = load [unfolded None]
    obtain r2 sc loader where asm: "computeSchematicMesh env ns lk
       (addGrid newScene (halfNumber (negateNumber (fst (snd (worldOf ns))))), getModelLoader env) (worldOf ns) = (r2, sc, loader)"
      by (cases "computeSchematicMesh env ns lk
       (addGrid newScene (halfNumber (negateNumber (fst (snd (worldOf ns))))), getModelLoader env) (worldOf ns)")
    show ?thesis
    proof (cases r2)
      case failed: (Some f)
      with run Some load asm show ?thesis by (simp add: renderSchematic_def Let_def)
    next
      case None
      with run Some load asm have "blockModelLookup s0 = lk" "resolved s0 = new" "\<not> hasDestroyed s0"
        by (auto simp add: renderSchematic_def Let_def)
      with Some load asm [unfolded None] show ?thesis by (intro that) simp_all
    qed
  qed
qed

lemma calls_lookup_grows:
  "blockModelLookup s \<subseteq>\<^sub>m blockModelLookup (calls env cs s)"
proof (induction cs arbitrary: s)
  case Nil
  show ?case by simp
next
  case (Cons c cs)
  obtain r s1 where h: "handle env c s = (r, s1)" by (cases "handle env c s")
  from handle_lookup [OF h] have "blockModelLookup s \<subseteq>\<^sub>m blockModelLookup s1"
  proof
    assume "blockModelLookup s1 = blockModelLookup s \<and> resolved s1 = resolved s"
    then show ?thesis by simp
  next
    assume "\<exists>bs r'. updateLoop env bs (blockModelLookup s) (resolved s) = (r', blockModelLookup s1, resolved s1)"
    then show ?thesis by (blast dest: updateLoop_grows)
  qed
  moreover have "blockModelLookup s1 \<subseteq>\<^sub>m blockModelLookup (calls env cs s1)" by (rule Cons.IH)
  ultimately have "blockModelLookup s \<subseteq>\<^sub>m blockModelLookup (calls env cs s1)" by (rule map_le_trans)
  with h show ?case by simp
qed

lemma calls_append: "calls env (cs @ cs') s = calls env cs' (calls env cs s)"
  by (induction cs arbitrary: s) simp_all

lemma calls_resolved:
  "\<exists>new. resolved (calls env cs s) = resolved s @ new
     \<and> (\<forall>b \<in> set new. blockModelLookup s (hashBlockForMap b) = None)"
proof (induction cs arbitrary: s)
  case Nil
  show ?case by simp
next
  case (Cons c cs)
  obtain r s1 where h: "handle env c s = (r, s1)" by (cases "handle env c s")
  have grows: "blockModelLookup s \<subseteq>\<^sub>m blockModelLookup s1"
    using calls_lookup_grows [of s env "[c]"] h by simp
  from handle_lookup [OF h]
  obtain new1 where new1: "resolved s1 = resolved s @ new1"
    and abs1: "\<forall>b \<in> set new1. blockModelLookup s (hashBlockForMap b) = None"
  proof
    assume "blockModelLookup s1 = blockModelLookup s \<and> resolved s1 = resolved s"
    then have "resolved s1 = resolved s @ []" by simp
    then show ?thesis by (rule that) simp
  next
    assume "\<exists>bs r'. updateLoop env bs (blockModelLookup s) (resolved s) = (r', blockModelLookup s1, resolved s1)"
    then obtain bs r' where "updateLoop env bs (blockModelLookup s) (resolved s) = (r', blockModelLookup s1, resolved s1)"
      by blast
    from updateLoop_calls [OF this] show ?thesis using that by blast
  qed
  from Cons.IH [of s1]
  obtain new2 where new2: "resolved (calls env cs s1) = resolved s1 @ new2"
    and abs2: "\<forall>b \<in> set new2. blockModelLookup s1 (hashBlockForMap b) = None"
    by blast
  have "\<forall>b \<in> set new2. blockModelLookup s (hashBlockForMap b) = None"
  proof
    fix b assume "b \<in> set new2"
    with abs2 have none: "blockModelLookup s1 (hashBlockForMap b) = None" by blast
    show "blockModelLookup s (hashBlockForMap b) = None"
    proof (cases "blockModelLookup s (hashBlockForMap b)")
      case None
      then show ?thesis .
    next
      case (Some d)
      then have "hashBlockForMap b \<in> dom (blockModelLookup s)" by blast
      with grows have "blockModelLookup s1 (hashBlockForMap b) = blockModelLookup s (hashBlockForMap b)"
        by (simp add: map_le_def)
      with none Some show ?thesis by simp
    qed
  qed
  with abs1 new1 new2 h
  have "resolved (calls env (c # cs) s) = resolved s @ (new1 @ new2)
    \<and> (\<forall>b \<in> set (new1 @ new2). blockModelLookup s (hashBlockForMap b) = None)"
    by auto
  then show ?case by blast
qed

lemma updateLoop_invariant:
  assumes run: "updateLoop env bs lk cs = (r, lk', cs')"
    and once: "resolvedOnce env lk cs"
    and entries: "\<forall>k d. lk k = Some d \<longrightarrow> resolvesTo env k d"
  shows "resolvedOnce env lk' cs' \<and> (\<forall>k d. lk' k = Some d \<longrightarrow> resolvesTo env k d)"
proof
  from run once show "resolvedOnce env lk' cs'" by (rule updateLoop_once)
  show "\<forall>k d. lk' k = Some d \<longrightarrow> resolvesTo env k d"
  proof (intro allI impI)
    fix k d assume "lk' k = Some d"
    with run have "lk k = Some d \<or> resolvesTo env k d" by (rule updateLoop_entries)
    with entries show "resolvesTo env k d" by blast
  qed
qed

lemma handle_invariant:
  assumes h: "handle env c s = (r, s')" and inv: "sessionInvariant env s"
  shows "sessionInvariant env s'"
  using handle_lookup [OF h]
proof
  assume "blockModelLookup s' = blockModelLookup s \<and> resolved s' = resolved s"
  with inv show ?thesis by (simp add: sessionInvariant_def)
next
  assume "\<exists>bs r'. updateLoop env bs (blockModelLookup s) (resolved s) = (r', blockModelLookup s', resolved s')"
  then obtain bs r' where "updateLoop env bs (blockModelLookup s) (resolved s) = (r', blockModelLookup s', resolved s')"
    by blast
  from updateLoop_invariant [OF this] inv show ?thesis by (simp add: sessionInvariant_def)
qed

lemma calls_invariant: "sessionInvariant env s \<Longrightarrow> sessionInvariant env (calls env cs s)"
proof (induction cs arbitrary: s)
  case Nil
  then show ?case by simp
next
  case (Cons c cs)
  obtain r s1 where h: "handle env c s = (r, s1)" by (cases "handle env c s")
  from handle_invariant [OF h Cons.prems] have "sessionInvariant env s1" .
  then have "sessionInvariant env (calls env cs s1)" by (rule Cons.IH)
  with h show ?case by simp
qed

lemma renderSchematic_invariant:
  assumes "renderSchematic env str opts = Inr s0"
  shows "sessionInvariant env s0"
  using assms
proof (cases rule: renderSchematic_session)
  case (1 ns sc loader)
  from 1(2) have "updateLoop env (blockTypes ns) Map.empty [] = (None, blockModelLookup s0, resolved s0)"
    by (simp add: updateBlockModelLookup_def)
  from updateLoop_invariant [OF this] show ?thesis
    by (simp add: sessionInvariant_def resolvedOnce_def)
qed

section \<open>Properties of culling and assembly\<close>

lemma addMeshes_eq:
  "addMeshes t pos ms sc = sc\<lparr>meshes := meshes sc @ map (translate t pos) (present ms)\<rparr>"
  by (induction ms arbitrary: sc rule: present.induct) (simp_all add: addMesh_def)

lemma translate_worldTranslation:
  "translate (worldTranslation world) pos m = fragmentAt world pos m"
  by (cases world; cases pos; cases "position m")
    (simp add: translate_def worldTranslation_def fragmentAt_def axisOffset_def)

lemma fragmentAt_exact:
  assumes "contains ns (x, y, z)"
    and "width ns < 2 ^ 52" and "height ns < 2 ^ 52" and "lengthZ ns < 2 ^ 52"
  shows "fragmentAt (worldOf ns) (x, y, z) mesh =
           mesh\<lparr>position :=
                  (plusNumber (fst (position mesh)) (Finite (offset (width ns) x)),
                   plusNumber (fst (snd (position mesh))) (Finite (offset (height ns) y)),
                   plusNumber (snd (snd (position mesh))) (Finite (offset (lengthZ ns) z))),
                worldMatrixFrozen := True\<rparr>"
proof -
  from assms(1) have "0 \<le> x" "x < width ns" "0 \<le> y" "y < height ns" "0 \<le> z" "z < lengthZ ns"
    by (simp_all add: contains_def)
  with assms(2-4) have "axisOffset (toNumber (width ns)) x = Finite (offset (width ns) x)"
    "axisOffset (toNumber (height ns)) y = Finite (offset (height ns) y)"
    "axisOffset (toNumber (lengthZ ns)) z = Finite (offset (lengthZ ns) z)"
    by (simp_all add: axisOffset_exact)
  then show ?thesis
    by (cases "position mesh") (simp add: fragmentAt_def worldOf_def)
qed

lemma getBlock_None_exposing:
  "getBlock ns n = None \<Longrightarrow> exposing env ns n"
  by (auto simp: getBlock_def exposing_def split: if_splits)

lemma getBlock_Some_exposing:
  "getBlock ns n = Some b \<Longrightarrow> exposing env ns n = (type b \<in> NON_OCCLUDING_BLOCKS env)"
  by (auto simp: getBlock_def exposing_def split: if_splits)

lemma anyVisibleLoop_eq:
  "anyVisibleLoop env ns pos faces =
     ((\<exists>f \<in> set faces. exposing env ns (neighborAt pos f)),
      takeWhile (\<lambda>f. \<not> exposing env ns (neighborAt pos f)) faces
        @ take 1 (dropWhile (\<lambda>f. \<not> exposing env ns (neighborAt pos f)) faces))"
proof (induction faces)
  case Nil
  show ?case by simp
next
  case (Cons face faces)
  obtain px py pz where pos: "pos = (px, py, pz)" by (cases pos)
  obtain dx dy dz where vec: "faceToFacingVector face = (dx, dy, dz)" by (cases "faceToFacingVector face")
  have nb: "neighborAt pos face = (px + dx, py + dy, pz + dz)"
    by (simp add: neighborAt_def pos vec)
  show ?case
  proof (cases "getBlock ns (px + dx, py + dy, pz + dz)")
    case None
    then have "exposing env ns (neighborAt pos face)" unfolding nb by (rule getBlock_None_exposing)
    with None show ?thesis by (simp add: pos vec)
  next
    case (Some b)
    note ex = getBlock_Some_exposing [OF Some, of env, folded nb]
    show ?thesis
    proof (cases "type b \<in> NON_OCCLUDING_BLOCKS env")
      case True
      with ex Some show ?thesis by (simp add: pos vec)
    next
      case False
      with ex Some Cons.IH show ?thesis by (simp add: pos vec)
    qed
  qed
qed

lemma neighbors_faces: "map (neighborAt pos) POSSIBLE_FACES = neighbors pos"
  by (cases pos) (simp add: neighborAt_def POSSIBLE_FACES_def neighbors_def)

lemma anyVisible_requiresGeometry:
  "fst (anyVisibleLoop env ns pos POSSIBLE_FACES) = requiresGeometry env ns pos"
  unfolding anyVisibleLoop_eq requiresGeometry_def neighbors_faces [symmetric] by simp

lemma placeModel_fragments:
  "placeModel env (worldTranslation world) pos block modelData (sc, l) =
     (case getModelOption env modelData l of
        (option, l1) \<Rightarrow>
          (case getModel env option block l1 of
             (None, l2) \<Rightarrow> (Some ModelRejected, sc, l2)
           | (Some ms, l2) \<Rightarrow>
               (None, sc\<lparr>meshes := meshes sc @ map (fragmentAt world pos) (present ms)\<rparr>, l2)))"
  by (simp add: placeModel_def addMeshes_eq translate_worldTranslation split: prod.splits option.splits)

lemma computeVoxel_fragments:
  "computeVoxel env ns lk (worldTranslation world) pos (sc, l) =
     (case voxelFragments env ns lk world pos l of
        (r, fragments, l') \<Rightarrow> (r, sc\<lparr>meshes := meshes sc @ fragments\<rparr>, l'))"
  by (simp add: computeVoxel_def voxelFragments_def anyVisible_requiresGeometry placeModel_fragments
      split: prod.splits option.splits)

lemma computeLoop_fragments:
  "computeLoop env ns lk (worldTranslation world) ps (sc, l) =
     (case fragmentsLoop env ns lk world ps l of
        (r, fragments, l') \<Rightarrow> (r, sc\<lparr>meshes := meshes sc @ fragments\<rparr>, l'))"
proof (induction ps arbitrary: sc l)
  case Nil
  show ?case by simp
next
  case (Cons p ps)
  obtain r1 A l1 where v: "voxelFragments env ns lk world p l = (r1, A, l1)"
    by (cases "voxelFragments env ns lk world p l")
  show ?case
  proof (cases r1)
    case (Some f)
    with v show ?thesis by (simp add: computeVoxel_fragments)
  next
    case None
    obtain r2 B l2 where rest: "fragmentsLoop env ns lk world ps l1 = (r2, B, l2)"
      by (cases "fragmentsLoop env ns lk world ps l1")
    from None v rest Cons.IH [of "sc\<lparr>meshes := meshes sc @ A\<rparr>" l1]
    show ?thesis by (simp add: computeVoxel_fragments)
  qed
qed

lemma computeSchematicMesh_fragments:
  "computeSchematicMesh env ns lk (sc, l) world =
     (case fragmentsLoop env ns lk world (positions ns) l of
        (r, fragments, l') \<Rightarrow>
          (r, sc\<lparr>meshes := meshes sc @ fragments, blockMaterialDirtyMechanism := (r \<noteq> None)\<rparr>, l'))"
  by (simp add: computeSchematicMesh_def computeLoop_fragments split: prod.splits option.splits)

text \<open>
  C6: the assembly appends to the scene, position by position in the order in which the
  structure enumerates them, the fragments of each voxel: the meshes of the voxel's model
  that are not null, each with its world matrix frozen and moved on every axis by
  \<open>- dimension / 2 + 0.5 + coordinate\<close> for the coordinates of its own voxel, formula and move
  computed on numbers (\<open>fragmentsLoop\<close>, \<open>voxelFragments\<close>, \<open>fragmentAt\<close>). And for a voxel at
  \<open>(x, y, z)\<close> that gets geometry in a structure with dimensions below \<open>2^52\<close>, no step of the
  formula rounds: the loop body appends each mesh of the model with
  \<open>- width / 2 + 0.5 + x\<close>, \<open>- height / 2 + 0.5 + y\<close> and \<open>- length / 2 + 0.5 + z\<close>, in their exact
  values, added to its position; a mesh that the model has at the origin lands at exactly
  these three values.
\<close>

theorem fragments_placed_by_formula:
  "computeSchematicMesh env ns lk (sc, l) world =
     (case fragmentsLoop env ns lk world (positions ns) l of
        (r, fragments, l') \<Rightarrow>
          (r, sc\<lparr>meshes := meshes sc @ fragments, blockMaterialDirtyMechanism := (r \<noteq> None)\<rparr>, l'))
   \<and> (getBlock ns (x, y, z) = Some block \<longrightarrow>
      type block \<notin> INVISIBLE_BLOCKS env \<longrightarrow>
      lk (hashBlockForMap block) = Some modelData \<longrightarrow>
      (\<exists>n \<in> set (neighbors (x, y, z)). exposing env ns n) \<longrightarrow>
      getModelOption env modelData l = (option, la) \<longrightarrow>
      getModel env option block la = (Some ms, lb) \<longrightarrow>
      width ns < 2 ^ 52 \<longrightarrow> height ns < 2 ^ 52 \<longrightarrow> lengthZ ns < 2 ^ 52 \<longrightarrow>
      computeVoxel env ns lk (worldTranslation (worldOf ns)) (x, y, z) (sc, l) =
        (None,
         sc\<lparr>meshes := meshes sc @
              map (\<lambda>mesh. mesh\<lparr>position :=
                     (plusNumber (fst (position mesh))
                        (Finite (- of_int (width ns) / 2 + 1 / 2 + of_int x)),
                      plusNumber (fst (snd (position mesh)))
                        (Finite (- of_int (height ns) / 2 + 1 / 2 + of_int y)),
                      plusNumber (snd (snd (position mesh)))
                        (Finite (- of_int (lengthZ ns) / 2 + 1 / 2 + of_int z))),
                     worldMatrixFrozen := True\<rparr>)
                (present ms)\<rparr>,
         lb))
   \<and> (contains ns (x, y, z) \<longrightarrow>
      width ns < 2 ^ 52 \<longrightarrow> height ns < 2 ^ 52 \<longrightarrow> lengthZ ns < 2 ^ 52 \<longrightarrow>
      position mesh = (Finite 0, Finite 0, Finite 0) \<longrightarrow>
      position (translate (worldTranslation (worldOf ns)) (x, y, z) mesh) =
        (Finite (- of_int (width ns) / 2 + 1 / 2 + of_int x),
         Finite (- of_int (height ns) / 2 + 1 / 2 + of_int y),
         Finite (- of_int (lengthZ ns) / 2 + 1 / 2 + of_int z)))"
proof (intro conjI impI)
  show "computeSchematicMesh env ns lk (sc, l) world =
     (case fragmentsLoop env ns lk world (positions ns) l of
        (r, fragments, l') \<Rightarrow>
          (r, sc\<lparr>meshes := meshes sc @ fragments, blockMaterialDirtyMechanism := (r \<noteq> None)\<rparr>, l'))"
    by (rule computeSchematicMesh_fragments)
next
  assume block: "getBlock ns (x, y, z) = Some block"
    and visible: "type block \<notin> INVISIBLE_BLOCKS env"
    and entry: "lk (hashBlockForMap block) = Some modelData"
    and exposed: "\<exists>n \<in> set (neighbors (x, y, z)). exposing env ns n"
    and opt: "getModelOption env modelData l = (option, la)"
    and model: "getModel env option block la = (Some ms, lb)"
    and dims: "width ns < 2 ^ 52" "height ns < 2 ^ 52" "lengthZ ns < 2 ^ 52"
  from block have inside: "contains ns (x, y, z)"
    by (simp add: getBlock_def split: if_splits)
  have placed: "fragmentAt (worldOf ns) (x, y, z) =
      (\<lambda>mesh. mesh\<lparr>position :=
                     (plusNumber (fst (position mesh))
                        (Finite (- of_int (width ns) / 2 + 1 / 2 + of_int x)),
                      plusNumber (fst (snd (position mesh)))
                        (Finite (- of_int (height ns) / 2 + 1 / 2 + of_int y)),
                      plusNumber (snd (snd (position mesh)))
                        (Finite (- of_int (lengthZ ns) / 2 + 1 / 2 + of_int z))),
                     worldMatrixFrozen := True\<rparr>)"
    by (rule ext) (simp add: fragmentAt_exact [OF inside dims] offset_def)
  from block visible entry exposed opt model
  have "voxelFragments env ns lk (worldOf ns) (x, y, z) l
          = (None, map (fragmentAt (worldOf ns) (x, y, z)) (present ms), lb)"
    by (simp add: voxelFragments_def requiresGeometry_def)
  then show "computeVoxel env ns lk (worldTranslation (worldOf ns)) (x, y, z) (sc, l) =
        (None,
         sc\<lparr>meshes := meshes sc @
              map (\<lambda>mesh. mesh\<lparr>position :=
                     (plusNumber (fst (position mesh))
                        (Finite (- of_int (width ns) / 2 + 1 / 2 + of_int x)),
                      plusNumber (fst (snd (position mesh)))
                        (Finite (- of_int (height ns) / 2 + 1 / 2 + of_int y)),
                      plusNumber (snd (snd (position mesh)))
                        (Finite (- of_int (lengthZ ns) / 2 + 1 / 2 + of_int z))),
                     worldMatrixFrozen := True\<rparr>)
                (present ms)\<rparr>,
         lb)"
    unfolding computeVoxel_fragments placed by simp
next
  assume inside: "contains ns (x, y, z)"
    and dims: "width ns < 2 ^ 52" "height ns < 2 ^ 52" "lengthZ ns < 2 ^ 52"
    and origin: "position mesh = (Finite 0, Finite 0, Finite 0)"
  from inside have "0 \<le> x" "x < width ns" "0 \<le> y" "y < height ns" "0 \<le> z" "z < lengthZ ns"
    by (simp_all add: contains_def)
  with dims have "plusNumber (Finite 0) (Finite (offset (width ns) x)) = Finite (offset (width ns) x)"
    "plusNumber (Finite 0) (Finite (offset (height ns) y)) = Finite (offset (height ns) y)"
    "plusNumber (Finite 0) (Finite (offset (lengthZ ns) z)) = Finite (offset (lengthZ ns) z)"
    by (simp_all only: offset_exact)
  then have "position (fragmentAt (worldOf ns) (x, y, z) mesh) =
      (Finite (offset (width ns) x), Finite (offset (height ns) y), Finite (offset (lengthZ ns) z))"
    unfolding fragmentAt_exact [OF inside dims] by (simp add: origin)
  then show "position (translate (worldTranslation (worldOf ns)) (x, y, z) mesh) =
        (Finite (- of_int (width ns) / 2 + 1 / 2 + of_int x),
         Finite (- of_int (height ns) / 2 + 1 / 2 + of_int y),
         Finite (- of_int (lengthZ ns) / 2 + 1 / 2 + of_int z))"
    by (simp only: translate_worldTranslation offset_def)
qed


lemma indexOf_member:
  "x \<in> set xs \<Longrightarrow>
   length (takeWhile (\<lambda>y. y \<noteq> x) xs) < length xs \<and> xs ! length (takeWhile (\<lambda>y. y \<noteq> x) xs) = x"
  by (induction xs) auto

lemma mset_swap_remove:
  assumes "i < length xs"
  shows "mset (butlast (xs[i := last xs])) = mset xs - {#xs ! i#}"
proof -
  from assms have ne: "xs \<noteq> []" by auto
  define ys where "ys = butlast xs"
  define e where "e = last xs"
  from ne have xs: "xs = ys @ [e]" by (simp add: ys_def e_def)
  show ?thesis
  proof (cases "i < length ys")
    case True
    then have "butlast (xs[i := last xs]) = ys[i := e]"
      by (simp add: xs list_update_append1)
    moreover from True have "mset (ys[i := e]) = add_mset e (mset ys - {#ys ! i#})"
      by (rule mset_update)
    moreover from True have "mset xs - {#xs ! i#} = add_mset e (mset ys - {#ys ! i#})"
      by (simp add: xs nth_append)
    ultimately show ?thesis by simp
  next
    case False
    with assms have i: "i = length ys" by (simp add: xs)
    then have "xs[i := last xs] = xs" by (simp add: xs)
    moreover from i have "xs ! i = e" by (simp add: xs)
    ultimately show ?thesis by (simp add: xs)
  qed
qed

text \<open>Removing a mesh takes one mesh with these fields out of the scene, if there is one.\<close>

lemma removeMesh_mset:
  "\<exists>ms. removeMesh m sc = sc\<lparr>meshes := ms\<rparr> \<and> mset ms = mset (meshes sc) - {#m#}"
proof (cases "m \<in> set (meshes sc)")
  case True
  from indexOf_member [OF True] mset_swap_remove [of "length (takeWhile (\<lambda>y. y \<noteq> m) (meshes sc))" "meshes sc"]
  have "mset (butlast ((meshes sc)[length (takeWhile (\<lambda>y. y \<noteq> m) (meshes sc)) := last (meshes sc)]))
      = mset (meshes sc) - {#m#}"
    by simp
  moreover from True have "removeMesh m sc =
      sc\<lparr>meshes := butlast ((meshes sc)[length (takeWhile (\<lambda>y. y \<noteq> m) (meshes sc)) := last (meshes sc)])\<rparr>"
    by (simp add: removeMesh_def indexOf_def)
  ultimately show ?thesis by blast
next
  case False
  then have "removeMesh m sc = sc\<lparr>meshes := meshes sc\<rparr>" by (simp add: removeMesh_def indexOf_def)
  moreover from False have "mset (meshes sc) = mset (meshes sc) - {#m#}" by simp
  ultimately show ?thesis by blast
qed

lemma dispose_mset:
  "\<exists>ms. dispose m sc = sc\<lparr>meshes := ms, disposedMeshes := disposedMeshes sc @ [m]\<rparr>
        \<and> mset ms = mset (meshes sc) - {#m#}"
proof -
  from removeMesh_mset [of m sc] obtain ms where "removeMesh m sc = sc\<lparr>meshes := ms\<rparr>"
    and "mset ms = mset (meshes sc) - {#m#}" by blast
  then show ?thesis by (auto simp: dispose_def released_def)
qed

lemma removeInstanced_steps:
  assumes "mset zs \<subseteq># mset (meshes sc)"
  shows "\<exists>ms. foldl (\<lambda>sc' instancedMesh. released instancedMesh (removeMesh instancedMesh sc')) sc zs
             = sc\<lparr>meshes := ms, disposedMeshes := disposedMeshes sc @ zs\<rparr>
           \<and> mset ms = mset (meshes sc) - mset zs"
  using assms
proof (induction zs arbitrary: sc)
  case Nil
  show ?case by (intro exI [of _ "meshes sc"]) simp
next
  case (Cons z zs)
  from removeMesh_mset [of z sc] obtain ms1 where rm: "removeMesh z sc = sc\<lparr>meshes := ms1\<rparr>"
    and m1: "mset ms1 = mset (meshes sc) - {#z#}" by blast
  let ?sc1 = "released z (removeMesh z sc)"
  have sc1: "?sc1 = sc\<lparr>meshes := ms1, disposedMeshes := disposedMeshes sc @ [z]\<rparr>"
    by (simp add: rm released_def)
  from Cons.prems have "z \<in># mset (meshes sc)" and "mset zs \<subseteq># mset (meshes sc) - {#z#}"
    by (simp_all add: insert_subset_eq_iff)
  with m1 have "mset zs \<subseteq># mset (meshes ?sc1)" by (simp add: sc1)
  from Cons.IH [OF this] obtain ms where
    run: "foldl (\<lambda>sc' instancedMesh. released instancedMesh (removeMesh instancedMesh sc')) ?sc1 zs
            = ?sc1\<lparr>meshes := ms, disposedMeshes := disposedMeshes ?sc1 @ zs\<rparr>"
    and ms: "mset ms = mset (meshes ?sc1) - mset zs"
    by blast
  from run have "foldl (\<lambda>sc' instancedMesh. released instancedMesh (removeMesh instancedMesh sc')) sc (z # zs)
            = sc\<lparr>meshes := ms, disposedMeshes := disposedMeshes sc @ z # zs\<rparr>"
    by (simp add: sc1)
  moreover from ms m1 have "mset ms = mset (meshes sc) - mset (z # zs)"
    by (simp add: sc1)
  ultimately show ?case by blast
qed

text \<open>
  The loop of \<^verbatim>\<open>swapSchematic\<close> over the instanced meshes leaves the other meshes in the scene,
  in an order that depends on where the removed ones stood, and disposes the instanced
  ones in their order.
\<close>

lemma removeInstanced_mset:
  "\<exists>ms. removeInstanced sc
           = sc\<lparr>meshes := ms, disposedMeshes := disposedMeshes sc @ filter instanced (meshes sc)\<rparr>
         \<and> mset ms = mset (filter (\<lambda>m. \<not> instanced m) (meshes sc))"
proof -
  have "mset (filter instanced (meshes sc)) \<subseteq># mset (meshes sc)" by simp
  from removeInstanced_steps [OF this] obtain ms where
    "removeInstanced sc = sc\<lparr>meshes := ms, disposedMeshes := disposedMeshes sc @ filter instanced (meshes sc)\<rparr>"
    and "mset ms = mset (meshes sc) - mset (filter instanced (meshes sc))"
    unfolding removeInstanced_def by blast
  moreover have "mset (meshes sc) - mset (filter instanced (meshes sc))
      = mset (filter (\<lambda>m. \<not> instanced m) (meshes sc))"
    by (induction "meshes sc" arbitrary: sc) (simp_all add: multiset_eq_iff)
  ultimately show ?thesis by auto
qed

section \<open>The example, evaluated\<close>

lemma hash_examples [simp]:
  "hashBlockForMap stone = ''stone:{}''"
  "hashBlockForMap glass = ''glass:{}''"
  "hashBlockForMap barrier = ''barrier:{}''"
  "hashBlockForMap air = ''air:{}''"
  by (simp_all add: hashBlockForMap_def JSON_stringify_def stone_def glass_def barrier_def air_def)

lemma positions_examples [simp]:
  "positions pairSchematic = [(0, 0, 0), (1, 0, 0)]"
  "positions glassSchematic = [(0, 0, 0)]"
  "positions barrierSchematic = [(0, 0, 0)]"
  by (simp_all add: positions_def pairSchematic_def glassSchematic_def barrierSchematic_def upto.simps)

lemma env_fields [simp]:
  "INVISIBLE_BLOCKS exampleEnv = {''air''}"
  "NON_OCCLUDING_BLOCKS exampleEnv = {''glass''}"
  "loadSchematic exampleEnv ''pair'' = Some pairSchematic"
  "loadSchematic exampleEnv ''glass'' = Some glassSchematic"
  "loadSchematic exampleEnv ''barrier'' = Some barrierSchematic"
  "loadBlockStateDefinition exampleEnv t = Some t"
  "getBlockModelData exampleEnv stone ''stone'' = stoneData"
  "getBlockModelData exampleEnv glass ''glass'' = glassData"
  "getBlockModelData exampleEnv barrier ''barrier'' = \<lparr>models = []\<rparr>"
  "getModelOption exampleEnv stoneData l = (''stone'', l)"
  "getModelOption exampleEnv glassData l = (''glass'', l)"
  "getModel exampleEnv opt b l = (Some [Some (instanceOf opt)], Suc l)"
  "clearCache exampleEnv l = 0"
  "getModelLoader exampleEnv = 0"
  "addArrowToScene exampleEnv c = []"
  "addBarsToScene exampleEnv c w = []"
  by (simp_all add: exampleEnv_def stone_def glass_def barrier_def stoneData_def glassData_def)

lemma type_examples [simp]:
  "type stone = ''stone''" "type glass = ''glass''" "type barrier = ''barrier''" "type air = ''air''"
  by (simp_all add: stone_def glass_def barrier_def air_def)

lemma update_pair:
  "updateBlockModelLookup exampleEnv Map.empty pairSchematic = (None, [''stone:{}'' \<mapsto> stoneData], [stone])"
  by (simp add: updateBlockModelLookup_def pairSchematic_def stoneData_def)

lemma getBlock_pair [simp]:
  "getBlock pairSchematic (0, 0, 0) = Some stone"
  "getBlock pairSchematic (1, 0, 0) = Some stone"
  by (simp_all add: getBlock_def contains_def pairSchematic_def)

lemma requires_pair [simp]:
  "requiresGeometry exampleEnv pairSchematic (0, 0, 0)"
  "requiresGeometry exampleEnv pairSchematic (1, 0, 0)"
  by (simp_all add: requiresGeometry_def neighbors_def exposing_def contains_def pairSchematic_def)

lemma getBlock_glass [simp]: "getBlock glassSchematic (0, 0, 0) = Some glass"
  by (simp add: getBlock_def contains_def glassSchematic_def)

lemma getBlock_barrier [simp]: "getBlock barrierSchematic (0, 0, 0) = Some barrier"
  by (simp add: getBlock_def contains_def barrierSchematic_def)

lemma requires_glass [simp]: "requiresGeometry exampleEnv glassSchematic (0, 0, 0)"
  by (simp add: requiresGeometry_def neighbors_def exposing_def contains_def glassSchematic_def)

text \<open>The numbers of the example are small multiples of one half, which no operation rounds.\<close>

declare toNumber_exact [simp] roundNumber_exact [simp]

lemma world_examples [simp]:
  "worldOf pairSchematic = (Finite 2, Finite 1, Finite 1)"
  "worldOf glassSchematic = (Finite 1, Finite 1, Finite 1)"
  "worldOf barrierSchematic = (Finite 1, Finite 1, Finite 1)"
  "worldOf crossSchematic = (Finite 3, Finite 3, Finite 3)"
  by (simp_all add: worldOf_def pairSchematic_def glassSchematic_def barrierSchematic_def
      crossSchematic_def)

lemma mesh_examples [simp]:
  "groundAt h \<noteq> stoneAt px" "stoneAt px \<noteq> groundAt h"
  "groundAt h \<noteq> glassPane" "glassPane \<noteq> groundAt h"
  "stoneAt px \<noteq> glassPane" "glassPane \<noteq> stoneAt px"
  "(stoneAt px = stoneAt qx) = (px = qx)"
  by (simp_all add: groundAt_def stoneAt_def glassPane_def)

lemma fragments_pair:
  "fragmentsLoop exampleEnv pairSchematic [''stone:{}'' \<mapsto> stoneData] (Finite 2, Finite 1, Finite 1)
     [(0, 0, 0), (1, 0, 0)] l =
     (None, [stoneAt (- 1 / 2), stoneAt (1 / 2)], Suc (Suc l))"
  by (simp add: voxelFragments_def fragmentAt_def axisOffset_def instanceOf_def stoneAt_def)

lemma fragments_glass:
  "fragmentsLoop exampleEnv glassSchematic [''stone:{}'' \<mapsto> stoneData, ''glass:{}'' \<mapsto> glassData]
     (Finite 1, Finite 1, Finite 1) [(0, 0, 0)] l = (None, [glassPane], Suc l)"
  by (simp add: voxelFragments_def fragmentAt_def axisOffset_def instanceOf_def glassPane_def)

lemma fragments_barrier:
  "fragmentsLoop exampleEnv barrierSchematic Map.empty (Finite 1, Finite 1, Finite 1) [(0, 0, 0)] l
     = (None, [], l)"
  by (simp add: voxelFragments_def)

lemma models_examples [simp]:
  "models stoneData = [''stone'']" "models glassData = [''glass'']"
  by (simp_all add: stoneData_def glassData_def)

lemma update_glass:
  "updateBlockModelLookup exampleEnv [''stone:{}'' \<mapsto> stoneData] glassSchematic =
     (None, [''stone:{}'' \<mapsto> stoneData, ''glass:{}'' \<mapsto> glassData], [glass])"
  by (simp add: updateBlockModelLookup_def glassSchematic_def)

lemma update_barrier:
  "updateBlockModelLookup exampleEnv Map.empty barrierSchematic = (None, Map.empty, [barrier])"
  by (simp add: updateBlockModelLookup_def barrierSchematic_def)

lemma render_pair: "renderSchematic exampleEnv ''pair'' exampleOptions = Inr pairSession"
  by (simp add: renderSchematic_def update_pair computeSchematicMesh_fragments fragments_pair
      pairSession_def addGrid_def addMesh_def newScene_def exampleOptions_def Let_def
      del: fragmentsLoop.simps)

lemma render_barrier: "renderSchematic exampleEnv ''barrier'' exampleOptions = Inr barrierSession"
  by (simp add: renderSchematic_def update_barrier computeSchematicMesh_fragments fragments_barrier
      barrierSession_def addGrid_def addMesh_def newScene_def exampleOptions_def Let_def
      del: fragmentsLoop.simps)

lemma instanced_examples [simp]:
  "instanced (stoneAt px)" "instanced glassPane" "\<not> instanced (groundAt h)"
  "name (groundAt h) = ''ground''"
  by (simp_all add: stoneAt_def glassPane_def groundAt_def)

lemma height_examples [simp]:
  "height pairSchematic = 1" "height glassSchematic = 1" "height barrierSchematic = 1"
  by (simp_all add: pairSchematic_def glassSchematic_def barrierSchematic_def)

lemma swap_pair_glass: "swapSchematic exampleEnv ''glass'' pairSession = (None, glassSession)"
proof -
  have ground: "find (\<lambda>mesh. name mesh = ''ground'') (meshes (removeInstanced (scene pairSession)))
      = Some (groundAt (Finite (- 1 / 2)))"
    by (simp add: removeInstanced_def removeMesh_def indexOf_def released_def pairSession_def)
  have load: "updateBlockModelLookup exampleEnv (blockModelLookup pairSession) glassSchematic =
     (None, [''stone:{}'' \<mapsto> stoneData, ''glass:{}'' \<mapsto> glassData], [glass])"
    by (simp add: pairSession_def update_glass)
  have asm: "computeSchematicMesh exampleEnv glassSchematic
        [''stone:{}'' \<mapsto> stoneData, ''glass:{}'' \<mapsto> glassData]
        (addGrid (dispose (groundAt (Finite (- 1 / 2))) (removeInstanced (scene pairSession)))
           (halfNumber (negateNumber (toNumber (height glassSchematic)))),
         clearCache exampleEnv (modelLoader pairSession))
        (worldOf glassSchematic)
      = (None, scene glassSession\<lparr>materialsFrozen := True\<rparr>, 1)"
    by (simp add: computeSchematicMesh_fragments fragments_glass removeInstanced_def pairSession_def
        glassSession_def addGrid_def addMesh_def dispose_def released_def removeMesh_def indexOf_def
        del: fragmentsLoop.simps)
  show ?thesis
    unfolding swapSchematic_done [OF env_fields(4) ground load asm]
    by (simp add: swapGround_def swapStart_def glassSession_def pairSession_def)
qed

lemma assembled_glass:
  "assembled exampleEnv glassSchematic [''stone:{}'' \<mapsto> stoneData, ''glass:{}'' \<mapsto> glassData] l
     = [glassPane]"
  by (simp add: assembled_def fragments_glass del: fragmentsLoop.simps)

section \<open>Properties of the swap\<close>

lemma find_ground:
  assumes "find (\<lambda>mesh. name mesh = ''ground'') ms = Some g"
  shows "g \<in> set ms" and "name g = ''ground''"
  using assms by (auto simp: find_Some_iff)

text \<open>
  C2, amended: after a swap that runs from its start to its completion with nothing in
  between, the lookup is the one before extended by the resolution of the block types of
  the new structure; the instanced meshes of the scene are exactly the instanced fragments
  of the new structure's visible voxels, in the order of assembly; every instanced mesh of
  the scene before the swap has been disposed; and the scene holds, before the new
  fragments, the meshes that were in it before and are neither instanced nor the ground
  mesh, and then a new ground mesh at minus half the height of the new structure, the old
  ground mesh being disposed.
\<close>

theorem swapSchematic_replaces_fragments:
  assumes run: "swapSchematic env newSchematicString s = (None, s')"
    and parsed: "loadSchematic env newSchematicString = Some ns"
  shows "blockModelLookup s' = loaded env (blockModelLookup s) (blockTypes ns)
       \<and> filter instanced (meshes (scene s'))
           = filter instanced
               (assembled env ns (loaded env (blockModelLookup s) (blockTypes ns))
                  (clearCache env (modelLoader s)))
       \<and> (\<exists>groundMesh kept.
             groundMesh \<in> set (meshes (scene s)) \<and> name groundMesh = ''ground''
             \<and> \<not> instanced groundMesh
             \<and> add_mset groundMesh (mset kept)
                 = mset (filter (\<lambda>m. \<not> instanced m) (meshes (scene s)))
             \<and> meshes (scene s')
                 = kept @ [groundAt (halfNumber (negateNumber (toNumber (height ns))))]
                   @ assembled env ns (loaded env (blockModelLookup s) (blockTypes ns))
                       (clearCache env (modelLoader s))
             \<and> disposedMeshes (scene s')
                 = disposedMeshes (scene s) @ filter instanced (meshes (scene s)) @ [groundMesh])"
  using run
proof (cases rule: swapSchematic_outcomes)
  case (Done ns' g lk new sc loader)
  from Done(1) parsed have ns: "ns' = ns" by simp
  let ?old = "meshes (scene s)"
  let ?h = "halfNumber (negateNumber (toNumber (height ns)))"
  let ?L = "loaded env (blockModelLookup s) (blockTypes ns)"
  from Done(3) have lk: "lk = ?L"
    unfolding ns updateBlockModelLookup_def by (rule updateLoop_loaded)
  from removeInstanced_mset [of "scene s"] obtain R where
    R: "removeInstanced (scene s)
          = (scene s)\<lparr>meshes := R, disposedMeshes := disposedMeshes (scene s) @ filter instanced ?old\<rparr>"
    and mR: "mset R = mset (filter (\<lambda>m. \<not> instanced m) ?old)"
    by blast
  let ?scR = "(scene s)\<lparr>meshes := R, disposedMeshes := disposedMeshes (scene s) @ filter instanced ?old\<rparr>"
  from Done(2) have "find (\<lambda>mesh. name mesh = ''ground'') R = Some g" by (simp add: R)
  then have gR: "g \<in> set R" and gname: "name g = ''ground''" by (rule find_ground)+
  from mR have "set R = set (filter (\<lambda>m. \<not> instanced m) ?old)" by (rule mset_eq_setD)
  with gR have gold: "g \<in> set ?old" and ginst: "\<not> instanced g" by auto
  from dispose_mset [of g ?scR] obtain K where
    K: "dispose g ?scR = ?scR\<lparr>meshes := K, disposedMeshes := disposedMeshes ?scR @ [g]\<rparr>"
    and mK: "mset K = mset (meshes ?scR) - {#g#}"
    by blast
  from mK gR have "add_mset g (mset K) = mset R" by simp
  with mR have keep: "add_mset g (mset K) = mset (filter (\<lambda>m. \<not> instanced m) ?old)" by simp
  have noinst: "\<forall>m \<in> set K. \<not> instanced m"
  proof
    fix m assume "m \<in> set K"
    then have "m \<in># add_mset g (mset K)" by simp
    then have "m \<in> set (filter (\<lambda>m. \<not> instanced m) ?old)" unfolding keep by simp
    then show "\<not> instanced m" by simp
  qed
  obtain r1 A l1 where loop:
    "fragmentsLoop env ns lk (worldOf ns) (positions ns) (clearCache env (modelLoader s)) = (r1, A, l1)"
    by (cases "fragmentsLoop env ns lk (worldOf ns) (positions ns) (clearCache env (modelLoader s))")
  then have A: "assembled env ns ?L (clearCache env (modelLoader s)) = A"
    by (simp add: assembled_def lk)
  note asm = Done(4) [unfolded ns R K]
  from asm loop
  have m: "meshes sc = K @ [groundAt ?h] @ A"
    and d: "disposedMeshes sc = disposedMeshes (scene s) @ filter instanced ?old @ [g]"
    by (auto simp: computeSchematicMesh_fragments addGrid_def addMesh_def)
  from Done(6) have lk': "blockModelLookup s' = lk" and sc: "scene s' = sc\<lparr>materialsFrozen := True\<rparr>"
    by simp_all
  from noinst have "filter instanced K = []" by (simp add: filter_empty_conv)
  then have f: "filter instanced (meshes sc) = filter instanced A"
    by (simp add: m groundAt_def)
  have c1: "blockModelLookup s' = ?L" by (simp add: lk' lk)
  have c2: "filter instanced (meshes (scene s'))
      = filter instanced (assembled env ns ?L (clearCache env (modelLoader s)))"
    by (simp add: sc f A)
  have c3: "g \<in> set ?old \<and> name g = ''ground'' \<and> \<not> instanced g
      \<and> add_mset g (mset K) = mset (filter (\<lambda>m. \<not> instanced m) ?old)
      \<and> meshes (scene s') = K @ [groundAt ?h] @ assembled env ns ?L (clearCache env (modelLoader s))
      \<and> disposedMeshes (scene s') = disposedMeshes (scene s) @ filter instanced ?old @ [g]"
    using gold gname ginst keep by (simp add: sc m d A)
  from c3 have "\<exists>groundMesh kept.
             groundMesh \<in> set ?old \<and> name groundMesh = ''ground''
             \<and> \<not> instanced groundMesh
             \<and> add_mset groundMesh (mset kept) = mset (filter (\<lambda>m. \<not> instanced m) ?old)
             \<and> meshes (scene s')
                 = kept @ [groundAt ?h] @ assembled env ns ?L (clearCache env (modelLoader s))
             \<and> disposedMeshes (scene s')
                 = disposedMeshes (scene s) @ filter instanced ?old @ [groundMesh]"
    by blast
  with c1 c2 show ?thesis by (intro conjI)
qed simp_all

theorem swapSchematic_replaces_fragments_witness:
  "swapSchematic exampleEnv ''glass'' pairSession = (None, glassSession)
   \<and> loadSchematic exampleEnv ''glass'' = Some glassSchematic
   \<and> blockModelLookup glassSession
       = loaded exampleEnv (blockModelLookup pairSession) (blockTypes glassSchematic)
   \<and> filter instanced (meshes (scene glassSession))
       = filter instanced
           (assembled exampleEnv glassSchematic
              (loaded exampleEnv (blockModelLookup pairSession) (blockTypes glassSchematic))
              (clearCache exampleEnv (modelLoader pairSession)))
   \<and> assembled exampleEnv glassSchematic (blockModelLookup glassSession)
         (clearCache exampleEnv (modelLoader pairSession)) = [glassPane]
   \<and> meshes (scene pairSession) = [groundAt (Finite (- 1 / 2)), stoneAt (- 1 / 2), stoneAt (1 / 2)]
   \<and> meshes (scene glassSession) = [groundAt (Finite (- 1 / 2)), glassPane]
   \<and> disposedMeshes (scene glassSession)
       = [stoneAt (- 1 / 2), stoneAt (1 / 2), groundAt (Finite (- 1 / 2))]"
proof -
  note th = swapSchematic_replaces_fragments [OF swap_pair_glass env_fields(4)]
  from th have c1: "blockModelLookup glassSession
       = loaded exampleEnv (blockModelLookup pairSession) (blockTypes glassSchematic)"
    by (rule conjunct1)
  from th have c2: "filter instanced (meshes (scene glassSession))
       = filter instanced
           (assembled exampleEnv glassSchematic
              (loaded exampleEnv (blockModelLookup pairSession) (blockTypes glassSchematic))
              (clearCache exampleEnv (modelLoader pairSession)))"
    by (elim conjE)
  have c3: "assembled exampleEnv glassSchematic (blockModelLookup glassSession)
         (clearCache exampleEnv (modelLoader pairSession)) = [glassPane]"
    by (simp add: glassSession_def assembled_glass)
  show ?thesis
    by (intro conjI swap_pair_glass env_fields(4) c1 c2 c3)
      (simp_all add: glassSession_def pairSession_def)
qed

section \<open>Witnesses for culling and placement\<close>

lemma getBlock_cross:
  "getBlock crossSchematic (1, 1, 1) = Some stone"
  "getBlock crossSchematic (1, 2, 1) = Some stone"
  by (simp_all add: getBlock_def contains_def crossSchematic_def)



lemma compute_pair:
  "computeSchematicMesh exampleEnv pairSchematic (blockModelLookup pairSession) (newScene, 0)
     (worldOf pairSchematic)
     = (None, newScene\<lparr>meshes := [stoneAt (- 1 / 2), stoneAt (1 / 2)]\<rparr>, 2)"
  by (simp add: computeSchematicMesh_fragments fragments_pair pairSession_def newScene_def
      del: fragmentsLoop.simps)

theorem fragments_placed_by_formula_witness:
  "computeSchematicMesh exampleEnv pairSchematic (blockModelLookup pairSession) (newScene, 0)
     (worldOf pairSchematic)
     = (None, newScene\<lparr>meshes := [stoneAt (- 1 / 2), stoneAt (1 / 2)]\<rparr>, 2)
   \<and> map position [stoneAt (- 1 / 2), stoneAt (1 / 2)]
       = [(Finite (- 1 / 2), Finite 0, Finite 0), (Finite (1 / 2), Finite 0, Finite 0)]
   \<and> getBlock pairSchematic (0, 0, 0) = Some stone
   \<and> getBlock pairSchematic (1, 0, 0) = Some stone
   \<and> type stone \<notin> INVISIBLE_BLOCKS exampleEnv
   \<and> blockModelLookup pairSession (hashBlockForMap stone) = Some stoneData
   \<and> (\<exists>n \<in> set (neighbors (0, 0, 0)). exposing exampleEnv pairSchematic n)
   \<and> (\<exists>n \<in> set (neighbors (1, 0, 0)). exposing exampleEnv pairSchematic n)
   \<and> getModelOption exampleEnv stoneData 0 = (''stone'', 0)
   \<and> getModel exampleEnv ''stone'' stone 0 = (Some [Some (instanceOf ''stone'')], 1)
   \<and> width pairSchematic < 2 ^ 52 \<and> height pairSchematic < 2 ^ 52 \<and> lengthZ pairSchematic < 2 ^ 52
   \<and> computeVoxel exampleEnv pairSchematic (blockModelLookup pairSession)
        (worldTranslation (worldOf pairSchematic)) (0, 0, 0) (newScene, 0)
       = (None, newScene\<lparr>meshes := [stoneAt (- 1 / 2)]\<rparr>, 1)
   \<and> computeVoxel exampleEnv pairSchematic (blockModelLookup pairSession)
        (worldTranslation (worldOf pairSchematic)) (1, 0, 0) (newScene, 0)
       = (None, newScene\<lparr>meshes := [stoneAt (1 / 2)]\<rparr>, 1)
   \<and> contains pairSchematic (0, 0, 0) \<and> contains pairSchematic (1, 0, 0)
   \<and> position (instanceOf ''stone'') = (Finite 0, Finite 0, Finite 0)
   \<and> position (translate (worldTranslation (worldOf pairSchematic)) (0, 0, 0) (instanceOf ''stone''))
       = (Finite (- 1 / 2), Finite 0, Finite 0)
   \<and> position (translate (worldTranslation (worldOf pairSchematic)) (1, 0, 0) (instanceOf ''stone''))
       = (Finite (1 / 2), Finite 0, Finite 0)
   \<and> getBlock crossSchematic (1, 2, 1) = Some stone
   \<and> (\<exists>n \<in> set (neighbors (1, 2, 1)). exposing exampleEnv crossSchematic n)
   \<and> width crossSchematic < 2 ^ 52 \<and> height crossSchematic < 2 ^ 52
   \<and> lengthZ crossSchematic < 2 ^ 52
   \<and> computeVoxel exampleEnv crossSchematic (blockModelLookup pairSession)
        (worldTranslation (worldOf crossSchematic)) (1, 2, 1) (newScene, 0)
       = (None,
          newScene\<lparr>meshes := [(instanceOf ''stone'')\<lparr>position := (Finite 0, Finite 1, Finite 0),
                                                     worldMatrixFrozen := True\<rparr>]\<rparr>,
          1)"
proof -
  have exc: "\<exists>n \<in> set (neighbors (1, 2, 1)). exposing exampleEnv crossSchematic n"
    by (simp add: neighbors_def exposing_def contains_def crossSchematic_def)
  have dimsc: "width crossSchematic < 2 ^ 52" "height crossSchematic < 2 ^ 52"
    "lengthZ crossSchematic < 2 ^ 52"
    by (simp_all add: crossSchematic_def)
  have in0: "contains pairSchematic (0, 0, 0)" and in1: "contains pairSchematic (1, 0, 0)"
    by (simp_all add: contains_def pairSchematic_def)
  have origin: "position (instanceOf ''stone'') = (Finite 0, Finite 0, Finite 0)"
    by (simp add: instanceOf_def)
  have lk: "blockModelLookup pairSession (hashBlockForMap stone) = Some stoneData"
    by (simp add: pairSession_def)
  have vis: "type stone \<notin> INVISIBLE_BLOCKS exampleEnv" by simp
  have ex0: "\<exists>n \<in> set (neighbors (0, 0, 0)). exposing exampleEnv pairSchematic n"
    using requires_pair(1) by (simp add: requiresGeometry_def)
  have ex1: "\<exists>n \<in> set (neighbors (1, 0, 0)). exposing exampleEnv pairSchematic n"
    using requires_pair(2) by (simp add: requiresGeometry_def)
  have opt: "getModelOption exampleEnv stoneData 0 = (''stone'', 0)" by simp
  have model: "getModel exampleEnv ''stone'' stone 0 = (Some [Some (instanceOf ''stone'')], 1)"
    by simp
  have dims: "width pairSchematic < 2 ^ 52" "height pairSchematic < 2 ^ 52"
    "lengthZ pairSchematic < 2 ^ 52"
    by (simp_all add: pairSchematic_def)
  note first = fragments_placed_by_formula [where env = exampleEnv and ns = pairSchematic
      and lk = "blockModelLookup pairSession" and sc = newScene and l = 0
      and world = "worldOf pairSchematic" and x = 0 and y = 0 and z = 0 and block = stone
      and modelData = stoneData and option = "''stone''" and la = 0
      and ms = "[Some (instanceOf ''stone'')]" and lb = 1 and mesh = "instanceOf ''stone''"]
  note second = fragments_placed_by_formula [where env = exampleEnv and ns = pairSchematic
      and lk = "blockModelLookup pairSession" and sc = newScene and l = 0
      and world = "worldOf pairSchematic" and x = 1 and y = 0 and z = 0 and block = stone
      and modelData = stoneData and option = "''stone''" and la = 0
      and ms = "[Some (instanceOf ''stone'')]" and lb = 1 and mesh = "instanceOf ''stone''"]
  from first have "computeSchematicMesh exampleEnv pairSchematic (blockModelLookup pairSession)
      (newScene, 0) (worldOf pairSchematic) =
     (case fragmentsLoop exampleEnv pairSchematic (blockModelLookup pairSession)
             (worldOf pairSchematic) (positions pairSchematic) 0 of
        (r, fragments, l') \<Rightarrow>
          (r, newScene\<lparr>meshes := meshes newScene @ fragments,
                         blockMaterialDirtyMechanism := (r \<noteq> None)\<rparr>, l'))"
    by (rule conjunct1)
  then have whole: "computeSchematicMesh exampleEnv pairSchematic (blockModelLookup pairSession)
      (newScene, 0) (worldOf pairSchematic)
     = (None, newScene\<lparr>meshes := [stoneAt (- 1 / 2), stoneAt (1 / 2)]\<rparr>, 2)"
    by (simp add: fragments_pair pairSession_def newScene_def del: fragmentsLoop.simps)
  have places: "map position [stoneAt (- 1 / 2), stoneAt (1 / 2)]
       = [(Finite (- 1 / 2), Finite 0, Finite 0), (Finite (1 / 2), Finite 0, Finite 0)]"
    by (simp add: stoneAt_def)
  from first getBlock_pair(1) vis lk ex0 opt model dims
  have v0: "computeVoxel exampleEnv pairSchematic (blockModelLookup pairSession)
        (worldTranslation (worldOf pairSchematic)) (0, 0, 0) (newScene, 0)
       = (None, newScene\<lparr>meshes := [stoneAt (- 1 / 2)]\<rparr>, 1)"
    by (simp add: instanceOf_def stoneAt_def newScene_def pairSchematic_def)
  from second getBlock_pair(2) vis lk ex1 opt model dims
  have v1: "computeVoxel exampleEnv pairSchematic (blockModelLookup pairSession)
        (worldTranslation (worldOf pairSchematic)) (1, 0, 0) (newScene, 0)
       = (None, newScene\<lparr>meshes := [stoneAt (1 / 2)]\<rparr>, 1)"
    by (simp add: instanceOf_def stoneAt_def newScene_def pairSchematic_def)
  from first in0 dims origin
  have p0: "position (translate (worldTranslation (worldOf pairSchematic)) (0, 0, 0) (instanceOf ''stone''))
       = (Finite (- 1 / 2), Finite 0, Finite 0)"
    by (simp add: pairSchematic_def)
  from second in1 dims origin
  have p1: "position (translate (worldTranslation (worldOf pairSchematic)) (1, 0, 0) (instanceOf ''stone''))
       = (Finite (1 / 2), Finite 0, Finite 0)"
    by (simp add: pairSchematic_def)
  note third = fragments_placed_by_formula [where env = exampleEnv and ns = crossSchematic
      and lk = "blockModelLookup pairSession" and sc = newScene and l = 0
      and world = "worldOf crossSchematic" and x = 1 and y = 2 and z = 1 and block = stone
      and modelData = stoneData and option = "''stone''" and la = 0
      and ms = "[Some (instanceOf ''stone'')]" and lb = 1 and mesh = "instanceOf ''stone''"]
  from third getBlock_cross(2) vis lk exc opt model dimsc
  have vc: "computeVoxel exampleEnv crossSchematic (blockModelLookup pairSession)
        (worldTranslation (worldOf crossSchematic)) (1, 2, 1) (newScene, 0)
       = (None,
          newScene\<lparr>meshes := [(instanceOf ''stone'')\<lparr>position := (Finite 0, Finite 1, Finite 0),
                                                     worldMatrixFrozen := True\<rparr>]\<rparr>,
          1)"
    by (simp add: instanceOf_def newScene_def crossSchematic_def)
  show ?thesis
    by (intro conjI whole places getBlock_pair vis lk ex0 ex1 opt model dims v0 v1 in0 in1 origin
        p0 p1 getBlock_cross(2) exc dimsc vc)
qed

section \<open>Properties of destroy and render\<close>

text \<open>
  C8, as stated, fails: \<^verbatim>\<open>swapSchematic\<close> does not read \<^verbatim>\<open>hasDestroyed\<close>. After \<open>destroy\<close> the scene of
  the disposed engine has no mesh, and the call fails for want of a ground mesh.
\<close>

theorem swap_after_destroy_counterexample:
  "hasDestroyed (destroy exampleEnv pairSession)
   \<and> meshes (scene (destroy exampleEnv pairSession)) = []
   \<and> fst (swapSchematic exampleEnv ''glass'' (destroy exampleEnv pairSession)) = Some TypeError"
proof -
  have "find (\<lambda>mesh. name mesh = ''ground'')
          (meshes (removeInstanced (scene (destroy exampleEnv pairSession)))) = None"
    by (simp add: removeInstanced_def destroy_def exampleEnv_def)
  from swapSchematic_no_ground [OF env_fields(4) this]
  have fault: "fst (swapSchematic exampleEnv ''glass'' (destroy exampleEnv pairSession)) = Some TypeError"
    by simp
  show ?thesis
    using fault by (simp add: destroy_def exampleEnv_def)
qed

text \<open>
  C8, amended: after \<open>destroy\<close>, whatever is called in between, a call of \<open>render\<close> returns
  the session as it is: nothing is rendered and nothing fails.
\<close>

theorem render_after_destroy_is_noop:
  "render (calls env cs (destroy env s)) = calls env cs (destroy env s)"
proof -
  have "hasDestroyed (destroy env s)" by (simp add: destroy_def)
  then have "hasDestroyed (calls env cs (destroy env s))" by (rule calls_hasDestroyed)
  then show ?thesis by (simp add: render_def)
qed

theorem render_after_destroy_is_noop_witness:
  "render (calls exampleEnv [SwapSchematic ''glass'', Resize 3] (destroy exampleEnv pairSession))
     = calls exampleEnv [SwapSchematic ''glass'', Resize 3] (destroy exampleEnv pairSession)"
  by (rule render_after_destroy_is_noop)

text \<open>
  C7: over any sequence of calls of the handles, every entry of the lookup stays, with the
  value it has: the lookup before is contained in the lookup after. The cache that a swap
  clears is that of the model loader.
\<close>

theorem lookup_only_grows:
  "blockModelLookup s \<subseteq>\<^sub>m blockModelLookup (calls env cs s)"
  by (rule calls_lookup_grows)

theorem lookup_only_grows_witness:
  "blockModelLookup pairSession
     \<subseteq>\<^sub>m blockModelLookup (calls exampleEnv [SwapSchematic ''glass'', Destroy, Render] pairSession)"
  by (rule lookup_only_grows)

section \<open>Properties of the lookup in a session\<close>

lemma swap_barrier_resolved:
  "fst (swapSchematic exampleEnv ''barrier'' barrierSession) = None
   \<and> resolved (snd (swapSchematic exampleEnv ''barrier'' barrierSession)) = [barrier, barrier]
   \<and> blockModelLookup (snd (swapSchematic exampleEnv ''barrier'' barrierSession)) = Map.empty"
proof -
  have ground: "find (\<lambda>mesh. name mesh = ''ground'') (meshes (removeInstanced (scene barrierSession)))
      = Some (groundAt (Finite (- 1 / 2)))"
    by (simp add: removeInstanced_def barrierSession_def)
  have load: "updateBlockModelLookup exampleEnv (blockModelLookup barrierSession) barrierSchematic =
     (None, Map.empty, [barrier])"
    by (simp add: barrierSession_def update_barrier)
  obtain sc where asm: "computeSchematicMesh exampleEnv barrierSchematic Map.empty
        (addGrid (dispose (groundAt (Finite (- 1 / 2))) (removeInstanced (scene barrierSession)))
           (halfNumber (negateNumber (toNumber (height barrierSchematic)))),
         clearCache exampleEnv (modelLoader barrierSession))
        (worldOf barrierSchematic) = (None, sc, 0)"
    by (simp add: computeSchematicMesh_fragments fragments_barrier del: fragmentsLoop.simps)
  show ?thesis
    unfolding swapSchematic_done [OF env_fields(5) ground load asm]
    by (simp add: barrierSession_def)
qed

text \<open>
  C3, as stated, fails: a block whose model data has no models gets no entry and no mark in
  the lookup, and the next load resolves it again.
\<close>

theorem empty_models_resolved_again_counterexample:
  "renderSchematic exampleEnv ''barrier'' exampleOptions = Inr barrierSession
   \<and> models (getBlockModelData exampleEnv barrier ''barrier'') = []
   \<and> resolved barrierSession = [barrier]
   \<and> blockModelLookup barrierSession (hashBlockForMap barrier) = None
   \<and> resolved (calls exampleEnv [SwapSchematic ''barrier''] barrierSession) = [barrier, barrier]"
  using swap_barrier_resolved by (simp add: render_barrier) (simp add: barrierSession_def)

lemma empty_models_absent:
  assumes inv: "sessionInvariant env s"
    and st: "loadBlockStateDefinition env (type b) = Some st"
    and empty: "models (getBlockModelData env b st) = []"
  shows "blockModelLookup s (hashBlockForMap b) = None"
proof (cases "blockModelLookup s (hashBlockForMap b)")
  case None
  then show ?thesis .
next
  case (Some d)
  with inv have "resolvesTo env (hashBlockForMap b) d" by (simp add: sessionInvariant_def)
  then obtain b0 st0 where "hashBlockForMap b = hashBlockForMap b0"
    and "loadBlockStateDefinition env (type b0) = Some st0"
    and "models (getBlockModelData env b0 st0) \<noteq> []"
    unfolding resolvesTo_def by blast
  with st empty hashBlockForMap_inj [of b b0] show ?thesis by simp
qed

text \<open>
  C3, amended: in every session whose calls are made one after the other, each awaited
  before the next, the resolutions that gave model data with models have pairwise different
  keys, so such a key is resolved at most once; whatever is called next, only blocks whose
  key is absent from the lookup are resolved. A block type whose model data has no models
  has no entry and no mark in the lookup: every later swap whose Load is not cut short (the
  swap completes, or fails only in the assembly) and in whose structure the block type
  occurs resolves it again, and leaves it without an entry.
\<close>

theorem resolved_at_most_once:
  assumes "renderSchematic env schematic options = Inr s0"
    and "s = calls env cs s0"
  shows "distinct (map hashBlockForMap (filter (modelsFound env) (resolved s)))
       \<and> (\<exists>new. resolved (calls env cs' s) = resolved s @ new
              \<and> (\<forall>b \<in> set new. blockModelLookup s (hashBlockForMap b) = None))
       \<and> (swapSchematic env str s = (r, s') \<longrightarrow>
          r = None \<or> r = Some ModelRejected \<longrightarrow>
          loadSchematic env str = Some ns \<longrightarrow>
          b \<in> set (blockTypes ns) \<longrightarrow>
          type b \<notin> INVISIBLE_BLOCKS env \<longrightarrow>
          loadBlockStateDefinition env (type b) = Some st \<longrightarrow>
          models (getBlockModelData env b st) = [] \<longrightarrow>
          blockModelLookup s (hashBlockForMap b) = None
          \<and> (\<exists>new. resolved s' = resolved s @ new \<and> b \<in> set new)
          \<and> blockModelLookup s' (hashBlockForMap b) = None)"
proof -
  from assms(1) have "sessionInvariant env s0" by (rule renderSchematic_invariant)
  then have inv: "sessionInvariant env s" unfolding assms(2) by (rule calls_invariant)
  then have c1: "distinct (map hashBlockForMap (filter (modelsFound env) (resolved s)))"
    by (simp add: sessionInvariant_def resolvedOnce_def)
  have c2: "\<exists>new. resolved (calls env cs' s) = resolved s @ new
              \<and> (\<forall>b \<in> set new. blockModelLookup s (hashBlockForMap b) = None)"
    by (rule calls_resolved)
  have c3: "swapSchematic env str s = (r, s') \<longrightarrow>
          r = None \<or> r = Some ModelRejected \<longrightarrow>
          loadSchematic env str = Some ns \<longrightarrow>
          b \<in> set (blockTypes ns) \<longrightarrow>
          type b \<notin> INVISIBLE_BLOCKS env \<longrightarrow>
          loadBlockStateDefinition env (type b) = Some st \<longrightarrow>
          models (getBlockModelData env b st) = [] \<longrightarrow>
          blockModelLookup s (hashBlockForMap b) = None
          \<and> (\<exists>new. resolved s' = resolved s @ new \<and> b \<in> set new)
          \<and> blockModelLookup s' (hashBlockForMap b) = None"
  proof (intro impI)
    assume run: "swapSchematic env str s = (r, s')"
      and finished: "r = None \<or> r = Some ModelRejected"
      and parsed: "loadSchematic env str = Some ns"
      and inside: "b \<in> set (blockTypes ns)"
      and visible: "type b \<notin> INVISIBLE_BLOCKS env"
      and st: "loadBlockStateDefinition env (type b) = Some st"
      and empty: "models (getBlockModelData env b st) = []"
    from inv st empty have absent: "blockModelLookup s (hashBlockForMap b) = None"
      by (rule empty_models_absent)
    from run have "handle env (SwapSchematic str) s = (r, s')" by simp
    then have "sessionInvariant env s'" using inv by (rule handle_invariant)
    then have absent': "blockModelLookup s' (hashBlockForMap b) = None"
      using st empty by (rule empty_models_absent)
    have again: "\<exists>new. resolved s' = resolved s @ new \<and> b \<in> set new"
      using run
    proof (cases rule: swapSchematic_outcomes)
      case ParseFailed
      with finished show ?thesis by simp
    next
      case (NoGround ns')
      with finished show ?thesis by simp
    next
      case (LoadFailed ns' g f lk new)
      from LoadFailed(3) have "f = FetchRejected"
        unfolding updateBlockModelLookup_def by (rule updateLoop_fault)
      with LoadFailed(4) finished show ?thesis by simp
    next
      case (AssembleFailed ns' g f lk new sc loader)
      from AssembleFailed(1) parsed have "ns' = ns" by simp
      with AssembleFailed(3) have "updateLoop env (blockTypes ns) (blockModelLookup s) [] = (None, lk, new)"
        by (simp add: updateBlockModelLookup_def)
      from updateLoop_resolves_again [OF absent inside this visible st empty]
      have "b \<in> set new" by simp
      with AssembleFailed(6) show ?thesis by simp
    next
      case (Done ns' g lk new sc loader)
      from Done(1) parsed have "ns' = ns" by simp
      with Done(3) have "updateLoop env (blockTypes ns) (blockModelLookup s) [] = (None, lk, new)"
        by (simp add: updateBlockModelLookup_def)
      from updateLoop_resolves_again [OF absent inside this visible st empty]
      have "b \<in> set new" by simp
      with Done(6) show ?thesis by simp
    qed
    from absent again absent'
    show "blockModelLookup s (hashBlockForMap b) = None
          \<and> (\<exists>new. resolved s' = resolved s @ new \<and> b \<in> set new)
          \<and> blockModelLookup s' (hashBlockForMap b) = None"
      by (intro conjI)
  qed
  from c1 c2 c3 show ?thesis by (intro conjI)
qed

theorem resolved_at_most_once_witness:
  "renderSchematic exampleEnv ''pair'' exampleOptions = Inr pairSession
   \<and> glassSession = calls exampleEnv [SwapSchematic ''glass''] pairSession
   \<and> resolved glassSession = [stone, glass]
   \<and> distinct (map hashBlockForMap (filter (modelsFound exampleEnv) (resolved glassSession)))
   \<and> (\<exists>new. resolved (calls exampleEnv [SwapSchematic ''pair''] glassSession) = resolved glassSession @ new
          \<and> (\<forall>b \<in> set new. blockModelLookup glassSession (hashBlockForMap b) = None))
   \<and> renderSchematic exampleEnv ''barrier'' exampleOptions = Inr barrierSession
   \<and> barrierSession = calls exampleEnv [] barrierSession
   \<and> fst (swapSchematic exampleEnv ''barrier'' barrierSession) = None
   \<and> loadSchematic exampleEnv ''barrier'' = Some barrierSchematic
   \<and> barrier \<in> set (blockTypes barrierSchematic)
   \<and> type barrier \<notin> INVISIBLE_BLOCKS exampleEnv
   \<and> loadBlockStateDefinition exampleEnv (type barrier) = Some ''barrier''
   \<and> models (getBlockModelData exampleEnv barrier ''barrier'') = []
   \<and> resolved barrierSession = [barrier]
   \<and> blockModelLookup barrierSession (hashBlockForMap barrier) = None
   \<and> resolved (snd (swapSchematic exampleEnv ''barrier'' barrierSession)) = [barrier, barrier]
   \<and> (\<exists>new. resolved (snd (swapSchematic exampleEnv ''barrier'' barrierSession))
                = resolved barrierSession @ new \<and> barrier \<in> set new)
   \<and> blockModelLookup (snd (swapSchematic exampleEnv ''barrier'' barrierSession))
         (hashBlockForMap barrier) = None"
proof -
  have reach: "glassSession = calls exampleEnv [SwapSchematic ''glass''] pairSession"
    by (simp add: swap_pair_glass)
  note th = resolved_at_most_once [OF render_pair reach, of "[SwapSchematic ''pair'']"]
  have r: "resolved glassSession = [stone, glass]" by (simp add: glassSession_def)
  note g1 = th [THEN conjunct1]
  note g2 = th [THEN conjunct2, THEN conjunct1]
  have reach': "barrierSession = calls exampleEnv [] barrierSession" by simp
  obtain s' where run: "swapSchematic exampleEnv ''barrier'' barrierSession = (None, s')"
    using swap_barrier_resolved by (cases "swapSchematic exampleEnv ''barrier'' barrierSession") simp
  have fin: "fst (swapSchematic exampleEnv ''barrier'' barrierSession) = None"
    using swap_barrier_resolved by simp
  have inside: "barrier \<in> set (blockTypes barrierSchematic)" by (simp add: barrierSchematic_def)
  have visible: "type barrier \<notin> INVISIBLE_BLOCKS exampleEnv" by simp
  have st: "loadBlockStateDefinition exampleEnv (type barrier) = Some ''barrier''" by simp
  have empty: "models (getBlockModelData exampleEnv barrier ''barrier'') = []" by simp
  note th' = resolved_at_most_once [OF render_barrier reach', where str = "''barrier''"
      and r = None and s' = s' and ns = barrierSchematic and b = barrier and st = "''barrier''"]
  from th' run env_fields(5) inside visible st empty
  have b1: "blockModelLookup barrierSession (hashBlockForMap barrier) = None"
    and b2: "\<exists>new. resolved s' = resolved barrierSession @ new \<and> barrier \<in> set new"
    and b3: "blockModelLookup s' (hashBlockForMap barrier) = None"
    by simp_all
  from run have s': "snd (swapSchematic exampleEnv ''barrier'' barrierSession) = s'" by simp
  have r0: "resolved barrierSession = [barrier]" by (simp add: barrierSession_def)
  have r1: "resolved (snd (swapSchematic exampleEnv ''barrier'' barrierSession)) = [barrier, barrier]"
    using swap_barrier_resolved by simp
  show ?thesis
    unfolding s'
    by (intro conjI render_pair reach r g1 g2 render_barrier reach' fin env_fields(5) inside visible
        st empty r0 b1 r1 [unfolded s'] b2 b3)
qed

lemma computeVoxel_absent:
  assumes "getBlock ns pos = Some b" and "lk (hashBlockForMap b) = None"
  shows "computeVoxel env ns lk t pos (sc, l) = (None, sc, l)"
  using assms by (simp add: computeVoxel_def)

text \<open>
  C10: in every session, an entry of the lookup holds model data with at least one model,
  and it stems from the resolution of a block that is not of an invisible type; the key of
  a block of an invisible type, and the key of a block whose model data has no models, is
  absent from the lookup; and the loop body of the assembly does nothing, and does not fail,
  for a voxel whose key is absent from the lookup.
\<close>

theorem lookup_entries_have_models:
  assumes "renderSchematic env schematic options = Inr s0"
    and "s = calls env cs s0"
  shows "(blockModelLookup s k = Some d \<longrightarrow> models d \<noteq> [] \<and> resolvesTo env k d)
       \<and> (type b' \<in> INVISIBLE_BLOCKS env \<longrightarrow> blockModelLookup s (hashBlockForMap b') = None)
       \<and> (loadBlockStateDefinition env (type b'') = Some st \<longrightarrow>
            models (getBlockModelData env b'' st) = [] \<longrightarrow>
            blockModelLookup s (hashBlockForMap b'') = None)
       \<and> (getBlock ns pos = Some b \<longrightarrow> blockModelLookup s (hashBlockForMap b) = None \<longrightarrow>
            computeVoxel env ns (blockModelLookup s) t pos (sc, l) = (None, sc, l))"
proof -
  from assms(1) have "sessionInvariant env s0" by (rule renderSchematic_invariant)
  then have "sessionInvariant env s" unfolding assms(2) by (rule calls_invariant)
  then have entries: "blockModelLookup s k' = Some d' \<Longrightarrow> resolvesTo env k' d'" for k' d'
    by (simp add: sessionInvariant_def)
  have c1: "blockModelLookup s k = Some d \<longrightarrow> models d \<noteq> [] \<and> resolvesTo env k d"
    using entries [of k d] by (auto simp: resolvesTo_def)
  have c2: "type b' \<in> INVISIBLE_BLOCKS env \<longrightarrow> blockModelLookup s (hashBlockForMap b') = None"
  proof (intro impI)
    assume inv: "type b' \<in> INVISIBLE_BLOCKS env"
    show "blockModelLookup s (hashBlockForMap b') = None"
    proof (cases "blockModelLookup s (hashBlockForMap b')")
      case None
      then show ?thesis .
    next
      case (Some d')
      from entries [OF this] obtain b0 where "hashBlockForMap b' = hashBlockForMap b0"
        and "type b0 \<notin> INVISIBLE_BLOCKS env"
        unfolding resolvesTo_def by blast
      with inv hashBlockForMap_inj [of b' b0] show ?thesis by simp
    qed
  qed
  have c3: "loadBlockStateDefinition env (type b'') = Some st \<longrightarrow>
            models (getBlockModelData env b'' st) = [] \<longrightarrow>
            blockModelLookup s (hashBlockForMap b'') = None"
  proof (intro impI)
    assume st: "loadBlockStateDefinition env (type b'') = Some st"
      and empty: "models (getBlockModelData env b'' st) = []"
    show "blockModelLookup s (hashBlockForMap b'') = None"
    proof (cases "blockModelLookup s (hashBlockForMap b'')")
      case None
      then show ?thesis .
    next
      case (Some d')
      from entries [OF this] obtain b0 st0 where "hashBlockForMap b'' = hashBlockForMap b0"
        and "loadBlockStateDefinition env (type b0) = Some st0"
        and "models (getBlockModelData env b0 st0) \<noteq> []"
        unfolding resolvesTo_def by blast
      with st empty hashBlockForMap_inj [of b'' b0] show ?thesis by simp
    qed
  qed
  from c1 c2 c3 show ?thesis by (simp add: computeVoxel_absent)
qed

theorem lookup_entries_have_models_witness:
  "renderSchematic exampleEnv ''pair'' exampleOptions = Inr pairSession
   \<and> glassSession = calls exampleEnv [SwapSchematic ''glass''] pairSession
   \<and> blockModelLookup glassSession ''glass:{}'' = Some glassData
   \<and> models glassData \<noteq> []
   \<and> resolvesTo exampleEnv ''glass:{}'' glassData
   \<and> type air \<in> INVISIBLE_BLOCKS exampleEnv
   \<and> blockModelLookup glassSession (hashBlockForMap air) = None
   \<and> loadBlockStateDefinition exampleEnv (type barrier) = Some ''barrier''
   \<and> models (getBlockModelData exampleEnv barrier ''barrier'') = []
   \<and> getBlock barrierSchematic (0, 0, 0) = Some barrier
   \<and> blockModelLookup glassSession (hashBlockForMap barrier) = None
   \<and> computeVoxel exampleEnv barrierSchematic (blockModelLookup glassSession)
        (worldTranslation (Finite 1, Finite 1, Finite 1)) (0, 0, 0) (newScene, 0)
       = (None, newScene, 0)"
proof -
  have reach: "glassSession = calls exampleEnv [SwapSchematic ''glass''] pairSession"
    by (simp add: swap_pair_glass)
  have entry: "blockModelLookup glassSession ''glass:{}'' = Some glassData"
    by (simp add: glassSession_def)
  have invisible: "type air \<in> INVISIBLE_BLOCKS exampleEnv" by simp
  have st: "loadBlockStateDefinition exampleEnv (type barrier) = Some ''barrier''" by simp
  have empty: "models (getBlockModelData exampleEnv barrier ''barrier'') = []" by simp
  note th = lookup_entries_have_models [OF render_pair reach, of "''glass:{}''" glassData
      air barrier "''barrier''" barrierSchematic "(0, 0, 0)" barrier
      "worldTranslation (Finite 1, Finite 1, Finite 1)" newScene 0]
  from th entry have c1: "models glassData \<noteq> []" and c2: "resolvesTo exampleEnv ''glass:{}'' glassData"
    by simp_all
  from th invisible have c3: "blockModelLookup glassSession (hashBlockForMap air) = None"
    by simp
  from th st empty have c4: "blockModelLookup glassSession (hashBlockForMap barrier) = None"
    by simp
  from th c4 have c5: "computeVoxel exampleEnv barrierSchematic (blockModelLookup glassSession)
      (worldTranslation (Finite 1, Finite 1, Finite 1)) (0, 0, 0) (newScene, 0) = (None, newScene, 0)"
    by simp
  show ?thesis
    by (intro conjI render_pair reach entry c1 c2 invisible c3 st empty getBlock_barrier c4 c5)
qed

section \<open>Properties of overlapping swaps\<close>

text \<open>A swap that runs alone, piece by piece, is \<open>swapSchematic\<close>.\<close>

lemma schedule_alone:
  "schedule env [Issue str, Resume 0, Resume 0] (idle s) = idle (snd (swapSchematic env str s))"
proof (cases "swapSchematic env str s")
  case (Pair r s')
  then show ?thesis
  proof (cases rule: swapSchematic_outcomes)
    case ParseFailed
    then show ?thesis
      by (simp add: Pair idle_def issue_def resume_def swapBegin_def swapStart_def)
  next
    case (NoGround ns)
    then show ?thesis
      by (simp add: Pair idle_def issue_def resume_def swapBegin_def swapStart_def)
  next
    case (LoadFailed ns g f lk new)
    then show ?thesis
      by (simp add: Pair idle_def issue_def resume_def swapBegin_def swapStart_def swapGround_def)
  next
    case (AssembleFailed ns g f lk new sc loader)
    then show ?thesis
      by (simp add: Pair idle_def issue_def resume_def swapBegin_def swapStart_def swapGround_def)
  next
    case (Done ns g lk new sc loader)
    then show ?thesis
      by (simp add: Pair idle_def issue_def resume_def swapBegin_def swapStart_def swapGround_def)
  qed
qed

lemma issue_inFlight:
  "length (inFlight (issue env str running)) \<le> Suc (length (inFlight running))"
  by (simp add: issue_def split: prod.splits option.splits)

lemma resume_inFlight:
  "length (inFlight (resume env i running)) \<le> length (inFlight running)"
  by (simp add: resume_def split: prod.splits option.splits)

text \<open>
  C9, amended: when the holder of the handles issues a swap only while no swap is in flight
  (it awaits each swap before the next), at most one swap is in flight at any time.
\<close>

theorem awaited_swaps_one_in_flight:
  assumes "awaited env es running" and "length (inFlight running) \<le> 1"
  shows "length (inFlight (schedule env es running)) \<le> 1"
  using assms
proof (induction es arbitrary: running)
  case Nil
  then show ?case by simp
next
  case (Cons e es)
  show ?case
  proof (cases e)
    case (Issue str)
    with Cons.prems have empty: "inFlight running = []" and rest: "awaited env es (issue env str running)"
      by simp_all
    from issue_inFlight [of env str running] empty
    have "length (inFlight (issue env str running)) \<le> 1" by simp
    with rest have "length (inFlight (schedule env es (issue env str running))) \<le> 1"
      by (rule Cons.IH)
    with Issue show ?thesis by simp
  next
    case (Resume i)
    with Cons.prems have rest: "awaited env es (resume env i running)" by simp
    from resume_inFlight [of env i running] Cons.prems(2)
    have "length (inFlight (resume env i running)) \<le> 1" by simp
    with rest have "length (inFlight (schedule env es (resume env i running))) \<le> 1"
      by (rule Cons.IH)
    with Resume show ?thesis by simp
  qed
qed

lemma fragments_pair_cached:
  "lk ''stone:{}'' = Some stoneData \<Longrightarrow>
   fragmentsLoop exampleEnv pairSchematic lk (Finite 2, Finite 1, Finite 1) [(0, 0, 0), (1, 0, 0)] l =
     (None, [stoneAt (- 1 / 2), stoneAt (1 / 2)], Suc (Suc l))"
  by (simp add: voxelFragments_def fragmentAt_def axisOffset_def instanceOf_def stoneAt_def)

lemma fragments_glass_cached:
  "lk ''glass:{}'' = Some glassData \<Longrightarrow>
   fragmentsLoop exampleEnv glassSchematic lk (Finite 1, Finite 1, Finite 1) [(0, 0, 0)] l
     = (None, [glassPane], Suc l)"
  by (simp add: voxelFragments_def fragmentAt_def axisOffset_def instanceOf_def glassPane_def)

lemma update_pair_cached:
  "lk ''stone:{}'' = Some stoneData \<Longrightarrow>
   updateBlockModelLookup exampleEnv lk pairSchematic = (None, lk, [])"
  by (simp add: updateBlockModelLookup_def pairSchematic_def)

text \<open>
  C9, as stated, fails: nothing in the session serializes swaps. Two swaps issued one after
  the other are both in flight; when their pieces then run in turn, both complete, and the
  scene holds the fragments of both structures.
\<close>

theorem overlapping_swaps_counterexample:
  "inFlight (schedule exampleEnv [Issue ''glass'', Issue ''pair''] (idle pairSession))
     = [Loading glassSchematic, Loading pairSchematic]
   \<and> inFlight (schedule exampleEnv overlapping (idle pairSession)) = []
   \<and> meshes (scene (session (schedule exampleEnv overlapping (idle pairSession))))
       = [groundAt (Finite (- 1 / 2)), glassPane, stoneAt (- 1 / 2), stoneAt (1 / 2)]"
  by (simp add: overlapping_def idle_def issue_def resume_def swapBegin_def removeInstanced_def
      pairSession_def update_glass update_pair_cached computeSchematicMesh_fragments
      fragments_glass_cached fragments_pair_cached addGrid_def addMesh_def dispose_def
      released_def removeMesh_def indexOf_def del: fragmentsLoop.simps)

text \<open>
  C2, as stated, fails: when a second swap is issued before the first has completed, the
  fragments of the first structure are assembled after the second swap has cleared the
  scene. Both swaps complete, the swap to the pair of stones last, and the scene then holds
  the pane of glass besides the fragments of the pair of stones.
\<close>

theorem overlapping_swap_leaves_fragments_counterexample:
  "inFlight (schedule exampleEnv [Issue ''glass'', Issue ''pair'', Resume 0, Resume 1, Resume 0]
        (idle pairSession)) = [Assembling pairSchematic]
   \<and> inFlight (schedule exampleEnv overlapping (idle pairSession)) = []
   \<and> blockModelLookup (session (schedule exampleEnv overlapping (idle pairSession)))
       = [''stone:{}'' \<mapsto> stoneData, ''glass:{}'' \<mapsto> glassData]
   \<and> assembled exampleEnv pairSchematic [''stone:{}'' \<mapsto> stoneData, ''glass:{}'' \<mapsto> glassData] 0
       = [stoneAt (- 1 / 2), stoneAt (1 / 2)]
   \<and> filter instanced (meshes (scene (session (schedule exampleEnv overlapping (idle pairSession)))))
       = [glassPane, stoneAt (- 1 / 2), stoneAt (1 / 2)]
   \<and> filter instanced (meshes (scene (session (schedule exampleEnv overlapping (idle pairSession)))))
       \<noteq> assembled exampleEnv pairSchematic
           (blockModelLookup (session (schedule exampleEnv overlapping (idle pairSession)))) 0"
proof -
  have a: "assembled exampleEnv pairSchematic [''stone:{}'' \<mapsto> stoneData, ''glass:{}'' \<mapsto> glassData] 0
       = [stoneAt (- 1 / 2), stoneAt (1 / 2)]"
    by (simp add: assembled_def fragments_pair_cached del: fragmentsLoop.simps)
  have b: "inFlight (schedule exampleEnv [Issue ''glass'', Issue ''pair'', Resume 0, Resume 1, Resume 0]
        (idle pairSession)) = [Assembling pairSchematic]"
    by (simp add: idle_def issue_def resume_def swapBegin_def removeInstanced_def
      pairSession_def update_glass update_pair_cached computeSchematicMesh_fragments
      fragments_glass_cached addGrid_def addMesh_def dispose_def
      released_def removeMesh_def indexOf_def del: fragmentsLoop.simps)
  have c: "session (schedule exampleEnv overlapping (idle pairSession))
      = pairSession\<lparr>blockModelLookup := [''stone:{}'' \<mapsto> stoneData, ''glass:{}'' \<mapsto> glassData],
          scene := \<lparr>meshes = [groundAt (Finite (- 1 / 2)), glassPane, stoneAt (- 1 / 2), stoneAt (1 / 2)],
                     blockMaterialDirtyMechanism = False, materialsFrozen = True,
                     disposedMeshes = [stoneAt (- 1 / 2), stoneAt (1 / 2), groundAt (Finite (- 1 / 2)),
                        groundAt (Finite (- 1 / 2))],
                     framesRendered = 0\<rparr>,
          modelLoader := 3, resolved := [stone, glass]\<rparr>"
    by (simp add: overlapping_def idle_def issue_def resume_def swapBegin_def removeInstanced_def
      pairSession_def update_glass update_pair_cached computeSchematicMesh_fragments
      fragments_glass_cached fragments_pair_cached addGrid_def addMesh_def dispose_def
      released_def removeMesh_def indexOf_def del: fragmentsLoop.simps)
  have d: "inFlight (schedule exampleEnv overlapping (idle pairSession)) = []"
    by (simp add: overlapping_def idle_def issue_def resume_def swapBegin_def removeInstanced_def
      pairSession_def update_glass update_pair_cached computeSchematicMesh_fragments
      fragments_glass_cached fragments_pair_cached addGrid_def addMesh_def dispose_def
      released_def removeMesh_def indexOf_def del: fragmentsLoop.simps)
  show ?thesis
    unfolding c by (intro conjI a b d) (simp_all add: a)
qed

theorem awaited_swaps_one_in_flight_witness:
  "awaited exampleEnv [Issue ''glass'', Resume 0, Resume 0, Issue ''pair''] (idle pairSession)
   \<and> length (inFlight (idle pairSession)) \<le> 1
   \<and> length (inFlight (schedule exampleEnv [Issue ''glass'', Resume 0, Resume 0, Issue ''pair'']
                 (idle pairSession))) \<le> 1"
proof -
  have a: "awaited exampleEnv [Issue ''glass'', Resume 0, Resume 0, Issue ''pair''] (idle pairSession)"
    by (simp add: idle_def issue_def resume_def swapBegin_def removeInstanced_def
      pairSession_def update_glass computeSchematicMesh_fragments
      fragments_glass_cached addGrid_def addMesh_def dispose_def
      released_def removeMesh_def indexOf_def del: fragmentsLoop.simps)
  have b: "length (inFlight (idle pairSession)) \<le> 1" by (simp add: idle_def)
  from awaited_swaps_one_in_flight [OF a b] a b show ?thesis by simp
qed

end
